theory Spec2Isabelle
  imports Complex_Main "HOL-Library.Word"
begin

section \<open>Data model (internal/repository/model.go, internal/client request type)\<close>

text \<open>
  \<^verbatim>\<open>type NotificationProvider int\<close> with the two constants \<^verbatim>\<open>EmailProvider\<close> and
  \<^verbatim>\<open>PushNotificationProvider\<close>; \<^verbatim>\<open>String()\<close> looks the name up in \<^verbatim>\<open>providerName\<close>.
\<close>

datatype NotificationProvider = EmailProvider | PushNotificationProvider

fun NotificationProvider_String :: "NotificationProvider \<Rightarrow> string" where
  "NotificationProvider_String EmailProvider = ''Email''"
| "NotificationProvider_String PushNotificationProvider = ''PushNotification''"

text \<open>
  \<^verbatim>\<open>NotificationPreference\<close> embeds \<^verbatim>\<open>gorm.Model\<close> (ID, CreatedAt, UpdatedAt, DeletedAt) and
  adds Host, ProviderName and SecretKey. Times are instants counted in nanoseconds.
\<close>

record NotificationPreference =
  ID :: nat
  CreatedAt :: nat
  UpdatedAt :: nat
  DeletedAt :: "nat option"
  Host :: string
  ProviderName :: string
  SecretKey :: string

record NotificationRequest =
  To :: string
  Title :: string
  Message :: string
  SecretKey :: string

text \<open>
  Go \<^verbatim>\<open>error\<close> values that occur in the modelled code: \<^verbatim>\<open>errors.New\<close>/\<^verbatim>\<open>fmt.Errorf\<close> with
  their message, \<^verbatim>\<open>gorm.ErrRecordNotFound\<close>, and the two context errors. A nil error is
  \<open>None\<close>.
\<close>

datatype error =
    ErrorsNew string
  | ErrRecordNotFound
  | Canceled
  | DeadlineExceeded

text \<open>A \<^verbatim>\<open>context.Context\<close> as far as the code reads it: the value of \<^verbatim>\<open>ctx.Err()\<close>.\<close>

record Context =
  Err :: "error option"

definition Background :: Context where
  "Background = \<lparr>Err = None\<rparr>"

definition cancelled :: Context where
  "cancelled = \<lparr>Err = Some Canceled\<rparr>"


section \<open>Provider interfaces of the service (cache.go, persistent.go, client.go)\<close>

text \<open>
  The service reaches its collaborators through three Go interfaces. Each method is a
  function on a world state \<open>'w\<close> (cache contents, database, remote hosts, breakers, clock)
  that returns its Go results together with the world it leaves behind.
\<close>

record 'w CacheProvider =
  Get :: "NotificationProvider \<Rightarrow> 'w \<Rightarrow> (NotificationPreference list \<times> error option) \<times> 'w"
  Set :: "NotificationProvider \<Rightarrow> NotificationPreference list \<Rightarrow> 'w \<Rightarrow> error option \<times> 'w"

record 'w PersistentProvider =
  FindByProviderType ::
    "Context \<Rightarrow> NotificationProvider \<Rightarrow> 'w \<Rightarrow> (NotificationPreference list \<times> error option) \<times> 'w"

record 'w HTTPClientProvider =
  Post :: "Context \<Rightarrow> string \<Rightarrow> NotificationRequest \<Rightarrow> 'w \<Rightarrow> error option \<times> 'w"

record 'w NotificationService =
  cacheProvider :: "'w CacheProvider"
  persistentProvider :: "'w PersistentProvider"
  httpclient :: "'w HTTPClientProvider"


section \<open>The service (internal/service)\<close>

text \<open>
  \<^verbatim>\<open>sendNotification\<close>: the \<^verbatim>\<open>for ... range preferences\<close> loop. Each round stores the
  endpoint's secret in \<^verbatim>\<open>req\<close>, posts to the endpoint's host, and either goes on to the
  next endpoint (\<^verbatim>\<open>continue\<close> on any error) or returns nil. After the loop the one fixed
  error is returned.
\<close>

fun sendNotification ::
  "'w NotificationService \<Rightarrow> Context \<Rightarrow> NotificationPreference list \<Rightarrow> NotificationRequest
     \<Rightarrow> 'w \<Rightarrow> error option \<times> 'w" where
  "sendNotification s ctx [] req w = (Some (ErrorsNew ''failure to sent the notifications''), w)"
| "sendNotification s ctx (preference # rest) req w =
     (let req' = req\<lparr>NotificationRequest.SecretKey := NotificationPreference.SecretKey preference\<rparr>
      in case Post (httpclient s) ctx (Host preference) req' w of
           (Some err, w') \<Rightarrow> sendNotification s ctx rest req' w'
         | (None, w') \<Rightarrow> (None, w'))"

text \<open>
  \<^verbatim>\<open>getNotificationPreferences\<close>: cache first; when the cache returns any error, the
  store; a store error is returned with an empty slice; a store result is handed to
  \<^verbatim>\<open>Set\<close> (whose result is dropped) and returned.
\<close>

definition getNotificationPreferences ::
  "'w NotificationService \<Rightarrow> Context \<Rightarrow> NotificationProvider \<Rightarrow> 'w
     \<Rightarrow> (NotificationPreference list \<times> error option) \<times> 'w" where
  "getNotificationPreferences s ctx providerType w =
     (case Get (cacheProvider s) providerType w of
        ((preferences, None), w1) \<Rightarrow> ((preferences, None), w1)
      | ((_, Some _), w1) \<Rightarrow>
          (case FindByProviderType (persistentProvider s) ctx providerType w1 of
             ((_, Some err), w2) \<Rightarrow> (([], Some err), w2)
           | ((preferences, None), w2) \<Rightarrow>
               (case Set (cacheProvider s) providerType preferences w2 of
                  (_, w3) \<Rightarrow> ((preferences, None), w3))))"

text \<open>\<^verbatim>\<open>SendToBuyer\<close>: resolve the Email channel, then dispatch; either error is returned.\<close>

definition SendToBuyer ::
  "'w NotificationService \<Rightarrow> Context \<Rightarrow> string \<Rightarrow> string \<Rightarrow> string \<Rightarrow> 'w \<Rightarrow> error option \<times> 'w" where
  "SendToBuyer s ctx to title message w =
     (let req = \<lparr>To = to, Title = title, Message = message, SecretKey = ''''\<rparr>
      in case getNotificationPreferences s ctx EmailProvider w of
           ((_, Some err), w1) \<Rightarrow> (Some err, w1)
         | ((preferences, None), w1) \<Rightarrow> sendNotification s ctx preferences req w1)"


section \<open>Observing the calls a run makes\<close>

text \<open>
  To speak about which collaborator calls a run makes, and in which order, a service is
  wrapped so that every interface call is appended to a log kept beside the world. The
  wrapped methods return exactly what the wrapped service returns.
\<close>

datatype call =
    CacheGet NotificationProvider
  | CacheSet NotificationProvider "NotificationPreference list"
  | StoreFind Context NotificationProvider
  | HTTPPost Context string NotificationRequest

definition logged :: "call \<Rightarrow> ('w \<Rightarrow> 'a \<times> 'w) \<Rightarrow> call list \<times> 'w \<Rightarrow> 'a \<times> (call list \<times> 'w)" where
  "logged c f = (\<lambda>(calls, w). case f w of (r, w') \<Rightarrow> (r, (calls @ [c], w')))"

definition recording :: "'w NotificationService \<Rightarrow> (call list \<times> 'w) NotificationService" where
  "recording s =
     \<lparr>cacheProvider =
        \<lparr>Get = (\<lambda>key. logged (CacheGet key) (Get (cacheProvider s) key)),
         Set = (\<lambda>key values. logged (CacheSet key values) (Set (cacheProvider s) key values))\<rparr>,
      persistentProvider =
        \<lparr>FindByProviderType =
           (\<lambda>ctx provider. logged (StoreFind ctx provider)
              (FindByProviderType (persistentProvider s) ctx provider))\<rparr>,
      httpclient =
        \<lparr>Post = (\<lambda>ctx u reqBody. logged (HTTPPost ctx u reqBody) (Post (httpclient s) ctx u reqBody))\<rparr>\<rparr>"

text \<open>
  The delivery attempt the loop makes for one endpoint, the world after a run of attempts,
  and whether the attempt at position \<open>i\<close> of a list fails when the loop gets there.
\<close>

definition delivery ::
  "'w NotificationService \<Rightarrow> Context \<Rightarrow> NotificationRequest \<Rightarrow> NotificationPreference \<Rightarrow> 'w
     \<Rightarrow> error option \<times> 'w" where
  "delivery s ctx req p w =
     Post (httpclient s) ctx (Host p)
       (req\<lparr>NotificationRequest.SecretKey := NotificationPreference.SecretKey p\<rparr>) w"

definition world_after ::
  "'w NotificationService \<Rightarrow> Context \<Rightarrow> NotificationRequest \<Rightarrow> NotificationPreference list \<Rightarrow> 'w \<Rightarrow> 'w" where
  "world_after s ctx req ps w = foldl (\<lambda>w' p. snd (delivery s ctx req p w')) w ps"

definition attempt_fails ::
  "'w NotificationService \<Rightarrow> Context \<Rightarrow> NotificationRequest \<Rightarrow> NotificationPreference list \<Rightarrow> 'w
     \<Rightarrow> nat \<Rightarrow> bool" where
  "attempt_fails s ctx req ps w i =
     (fst (delivery s ctx req (ps ! i) (world_after s ctx req (take i ps) w)) \<noteq> None)"

definition post_call :: "Context \<Rightarrow> NotificationRequest \<Rightarrow> NotificationPreference \<Rightarrow> call" where
  "post_call ctx req p =
     HTTPPost ctx (Host p) (req\<lparr>NotificationRequest.SecretKey := NotificationPreference.SecretKey p\<rparr>)"


section \<open>Test doubles (internal/service/service_test.go)\<close>

text \<open>
  The tests build the service from gomock doubles whose methods return prepared values
  (\<^verbatim>\<open>.Return(...)\<close>) or run a closure on the arguments (\<^verbatim>\<open>.DoAndReturn(...)\<close>). A double
  keeps no state, so its world is passed through unchanged.
\<close>

definition mock_service ::
  "(NotificationProvider \<Rightarrow> NotificationPreference list \<times> error option)
     \<Rightarrow> (NotificationProvider \<Rightarrow> NotificationPreference list \<Rightarrow> error option)
     \<Rightarrow> (Context \<Rightarrow> NotificationProvider \<Rightarrow> NotificationPreference list \<times> error option)
     \<Rightarrow> (Context \<Rightarrow> string \<Rightarrow> NotificationRequest \<Rightarrow> error option)
     \<Rightarrow> 'w NotificationService" where
  "mock_service get_ret set_ret find_ret post_ret =
     \<lparr>cacheProvider =
        \<lparr>Get = (\<lambda>key w. (get_ret key, w)),
         Set = (\<lambda>key values w. (set_ret key values, w))\<rparr>,
      persistentProvider = \<lparr>FindByProviderType = (\<lambda>ctx provider w. (find_ret ctx provider, w))\<rparr>,
      httpclient = \<lparr>Post = (\<lambda>ctx u reqBody w. (post_ret ctx u reqBody, w))\<rparr>\<rparr>"

text \<open>
  The closure the cancellation tests give to \<^verbatim>\<open>Post\<close>:
  \<^verbatim>\<open>if ctx.Err() != nil { return ctx.Err() }; return nil\<close>.
\<close>

definition post_unless_cancelled :: "Context \<Rightarrow> string \<Rightarrow> NotificationRequest \<Rightarrow> error option" where
  "post_unless_cancelled ctx u reqBody = (case Err ctx of Some e \<Rightarrow> Some e | None \<Rightarrow> None)"

text \<open>\<^verbatim>\<open>Post\<close> prepared to fail for the listed URLs and to succeed for every other one.\<close>

definition post_failing :: "string list \<Rightarrow> error \<Rightarrow> Context \<Rightarrow> string \<Rightarrow> NotificationRequest \<Rightarrow> error option" where
  "post_failing down e ctx u reqBody = (if u \<in> set down then Some e else None)"

definition cache_miss :: "NotificationProvider \<Rightarrow> NotificationPreference list \<times> error option" where
  "cache_miss key = ([], Some (ErrorsNew ''cache miss''))"

definition set_ok :: "NotificationProvider \<Rightarrow> NotificationPreference list \<Rightarrow> error option" where
  "set_ok key values = None"

definition find_unexpected :: "Context \<Rightarrow> NotificationProvider \<Rightarrow> NotificationPreference list \<times> error option" where
  "find_unexpected ctx provider = ([], Some (ErrorsNew ''unexpected call''))"

definition endpoint :: "string \<Rightarrow> string \<Rightarrow> NotificationPreference" where
  "endpoint host secret =
     \<lparr>ID = 0, CreatedAt = 0, UpdatedAt = 0, DeletedAt = None,
      Host = host, ProviderName = [], SecretKey = secret\<rparr>"

definition test_request :: NotificationRequest where
  "test_request = \<lparr>To = ''user@example.com'', Title = ''Test'', Message = ''Test message'', SecretKey = []\<rparr>"

definition three_services :: "NotificationPreference list" where
  "three_services =
     [endpoint ''https://service1.com'' ''secret1'',
      endpoint ''https://service2.com'' ''secret2'',
      endpoint ''https://service3.com'' ''secret3'']"

definition get_returning ::
  "NotificationPreference list \<times> error option \<Rightarrow> NotificationProvider
     \<Rightarrow> NotificationPreference list \<times> error option" where
  "get_returning r key = r"

definition find_returning ::
  "NotificationPreference list \<times> error option \<Rightarrow> Context \<Rightarrow> NotificationProvider
     \<Rightarrow> NotificationPreference list \<times> error option" where
  "find_returning r ctx provider = r"

text \<open>
  A client fails when cancelled if \<^verbatim>\<open>Post\<close> returns an error whenever the context it is
  given reports one, as \<^verbatim>\<open>http.Client.Do\<close> and the cancellation tests' doubles do.
\<close>

definition fails_when_cancelled :: "'w NotificationService \<Rightarrow> bool" where
  "fails_when_cancelled s =
     (\<forall>ctx u reqBody w. Err ctx \<noteq> None \<longrightarrow> fst (Post (httpclient s) ctx u reqBody w) \<noteq> None)"


section \<open>The repository layer (internal/repository)\<close>

subsection \<open>The cache engine\<close>

text \<open>
  Modelled from the spec: the engine behind \<^verbatim>\<open>Cache\<close> is the ristretto library, whose
  code is not part of this repository. It is modelled as the spec describes a cache entry
  (section 3, \<^verbatim>\<open>{key, value, expires_at}\<close>) and the cache contract (section 4.1): a map
  from key to value and expiry instant; a write overwrites the entry and sets its expiry
  to the current instant plus the TTL; a read finds an entry only while the current
  instant is before its expiry (expiry is checked on read, nothing is swept). Admission
  control, eviction under memory pressure and the engine's write buffering are left out.
\<close>

type_synonym Engine = "string \<rightharpoonup> NotificationPreference list \<times> nat"

definition engine_Get :: "Engine \<Rightarrow> nat \<Rightarrow> string \<Rightarrow> NotificationPreference list \<times> bool" where
  "engine_Get e now k =
     (case e k of
        None \<Rightarrow> ([], False)
      | Some (v, expires_at) \<Rightarrow> if now < expires_at then (v, True) else ([], False))"

definition engine_SetWithTTL ::
  "Engine \<Rightarrow> nat \<Rightarrow> string \<Rightarrow> NotificationPreference list \<Rightarrow> nat \<Rightarrow> nat \<Rightarrow> Engine" where
  "engine_SetWithTTL e now k v cost ttl = e(k \<mapsto> (v, now + ttl))"

subsection \<open>The database\<close>

text \<open>
  The table \<^verbatim>\<open>notification_preferences\<close> of the migration, one record per row (the
  columns \<^verbatim>\<open>id\<close> and \<^verbatim>\<open>host\<close> are the fields \<open>row_id\<close> and \<open>row_host\<close>), and the
  connection: the rows and the error, if any, with which the database answers a query
  (connection lost, and the like).
\<close>

record Row =
  row_id :: nat
  provider_type :: string
  provider_name :: string
  row_host :: string
  priority :: int
  secret_key :: string
  created_at :: nat
  deleted_at :: "nat option"

record DB =
  rows :: "Row list"
  failure :: "error option"

text \<open>A row read into the Go struct; the table has no \<^verbatim>\<open>updated_at\<close> column.\<close>

definition scan :: "Row \<Rightarrow> NotificationPreference" where
  "scan r =
     \<lparr>ID = row_id r, CreatedAt = created_at r, UpdatedAt = 0, DeletedAt = deleted_at r,
      Host = row_host r, ProviderName = provider_name r, SecretKey = secret_key r\<rparr>"

text \<open>
  The query chain of \<^verbatim>\<open>FindByProviderType\<close>:
  \<^verbatim>\<open>Where("provider_type = ?", name).Where("deleted_at IS NULL").Order("priority").Find(ctx)\<close>.
  A context that already reports an error, or a failing database, gives that error;
  otherwise the matching rows that are not deleted, ascending by priority (rows of equal
  priority in table order).
\<close>

definition Find :: "Context \<Rightarrow> DB \<Rightarrow> string \<Rightarrow> NotificationPreference list \<times> error option" where
  "Find ctx db name =
     (case Err ctx of
        Some e \<Rightarrow> ([], Some e)
      | None \<Rightarrow>
          (case failure db of
             Some e \<Rightarrow> ([], Some e)
           | None \<Rightarrow>
               (map scan
                  (sort_key priority
                     (filter (\<lambda>r. provider_type r = name \<and> deleted_at r = None) (rows db))),
                None)))"

subsection \<open>The world of the concrete providers\<close>

text \<open>
  \<^verbatim>\<open>Cache\<close> holds the engine and the configured TTL (\<^verbatim>\<open>expiredTime\<close>; the logger is left
  out). The world the concrete cache and store act on is the clock, the cache and the
  database connection.
\<close>

record Cache =
  engine :: Engine
  expiredTime :: nat

record World =
  now :: nat
  cache :: Cache
  conn :: DB

definition cacheKey :: "NotificationProvider \<Rightarrow> string" where
  "cacheKey key = ''notification:preferences:'' @ NotificationProvider_String key"

text \<open>\<^verbatim>\<open>Cache.Get\<close>: not found in the engine is the error, found is the value with nil.\<close>

definition Cache_Get ::
  "NotificationProvider \<Rightarrow> World \<Rightarrow> (NotificationPreference list \<times> error option) \<times> World" where
  "Cache_Get key w =
     (case engine_Get (engine (cache w)) (now w) (cacheKey key) of
        (value, found) \<Rightarrow>
          if \<not> found
          then (([], Some (ErrorsNew (''cache key: '' @ [CHR 0x27] @ cacheKey key @ [CHR 0x27]
                                       @ '' not found''))), w)
          else ((value, None), w))"

text \<open>
  \<^verbatim>\<open>Cache.Set\<close>: \<^verbatim>\<open>SetWithTTL(cacheKey, values, 1, c.expiredTime)\<close>, whose result is not
  looked at, then \<^verbatim>\<open>return nil\<close>.
\<close>

definition Cache_Set ::
  "NotificationProvider \<Rightarrow> NotificationPreference list \<Rightarrow> World \<Rightarrow> error option \<times> World" where
  "Cache_Set key values w =
     (None,
      w\<lparr>cache := (cache w)\<lparr>engine :=
           engine_SetWithTTL (engine (cache w)) (now w) (cacheKey key) values 1
             (expiredTime (cache w))\<rparr>\<rparr>)"

text \<open>
  \<^verbatim>\<open>Persistent.FindByProviderType\<close>: a query error is returned with an empty slice; an
  empty result is \<^verbatim>\<open>gorm.ErrRecordNotFound\<close>; otherwise the rows with nil.
\<close>

definition Persistent_FindByProviderType ::
  "Context \<Rightarrow> NotificationProvider \<Rightarrow> World
     \<Rightarrow> (NotificationPreference list \<times> error option) \<times> World" where
  "Persistent_FindByProviderType ctx provider w =
     (case Find ctx (conn w) (NotificationProvider_String provider) of
        (_, Some err) \<Rightarrow> (([], Some err), w)
      | (preferences, None) \<Rightarrow>
          if length preferences = 0
          then (([], Some ErrRecordNotFound), w)
          else ((preferences, None), w))"

text \<open>\<^verbatim>\<open>NewNotificationService\<close>, and the service wired to the concrete cache and store.\<close>

definition NewNotificationService ::
  "'w CacheProvider \<Rightarrow> 'w PersistentProvider \<Rightarrow> 'w HTTPClientProvider \<Rightarrow> 'w NotificationService" where
  "NewNotificationService c p h = \<lparr>cacheProvider = c, persistentProvider = p, httpclient = h\<rparr>"

definition wired :: "World HTTPClientProvider \<Rightarrow> World NotificationService" where
  "wired h =
     NewNotificationService \<lparr>Get = Cache_Get, Set = Cache_Set\<rparr>
       \<lparr>FindByProviderType = Persistent_FindByProviderType\<rparr> h"

text \<open>
  The worlds the wired service can be in: it starts with an empty engine (\<^verbatim>\<open>NewCache\<close>);
  a resolve leads from one to the next; and between calls the clock and the database may
  change in any way. \<^verbatim>\<open>Cache.Set\<close> has no caller but the resolver.
\<close>

inductive reachable :: "World \<Rightarrow> bool" where
  start: "engine (cache w) = Map.empty \<Longrightarrow> reachable w"
| resolve: "reachable w \<Longrightarrow> reachable (snd (getNotificationPreferences (wired h) ctx providerType w))"
| elapse: "reachable w \<Longrightarrow> reachable (w\<lparr>now := t, conn := db\<rparr>)"

text \<open>The number of store queries in a log of calls.\<close>

fun is_StoreFind :: "call \<Rightarrow> bool" where
  "is_StoreFind (StoreFind ctx provider) = True"
| "is_StoreFind c = False"

definition store_calls :: "call list \<Rightarrow> nat" where
  "store_calls calls = length (filter is_StoreFind calls)"

subsection \<open>Fixtures\<close>

definition email_row :: Row where
  "email_row =
     \<lparr>row_id = 1, provider_type = ''Email'', provider_name = ''mailer'',
      row_host = ''https://email-service.com'', priority = 1, secret_key = ''secret1'',
      created_at = 0, deleted_at = None\<rparr>"

definition deleted_push_row :: Row where
  "deleted_push_row =
     \<lparr>row_id = 2, provider_type = ''PushNotification'', provider_name = ''pusher'',
      row_host = ''https://push-service.com'', priority = 1, secret_key = ''push-secret'',
      created_at = 0, deleted_at = Some 5\<rparr>"

definition fresh_world :: "DB \<Rightarrow> World" where
  "fresh_world db =
     \<lparr>now = 0, cache = \<lparr>engine = Map.empty, expiredTime = 600000000000\<rparr>, conn = db\<rparr>"

definition no_client :: "World HTTPClientProvider" where
  "no_client = \<lparr>Post = (\<lambda>ctx u reqBody w. (Some (ErrorsNew ''unexpected call''), w))\<rparr>"


text \<open>The invariant of the cache: no entry holds an empty list.\<close>

definition cache_nonempty :: "World \<Rightarrow> bool" where
  "cache_nonempty w = (\<forall>k v e. engine (cache w) k = Some (v, e) \<longrightarrow> v \<noteq> [])"

section \<open>The circuit breaker registry (internal/client)\<close>

subsection \<open>The \<^verbatim>\<open>float64\<close> operations of \<^verbatim>\<open>ReadyToTrip\<close>\<close>

text \<open>
  Go's \<^verbatim>\<open>float64\<close> is the IEEE-754 binary64 format. A value is a finite number (a
  rational; the two zeros are not told apart: the only zero that \<^verbatim>\<open>ReadyToTrip\<close> divides
  by is the conversion of a \<^verbatim>\<open>uint32\<close>, a positive zero), an infinity or NaN. Results are rounded to the nearest representable number,
  a tie going to the even significand: for a positive rational with binary exponent \<open>e\<close>
  (at least \<open>-1022\<close>, below that the numbers are subnormal) the representable numbers
  are the multiples of \<open>2\<^sup>e\<^sup>-\<^sup>5\<^sup>2\<close>, and a result of \<open>2\<^sup>1\<^sup>0\<^sup>2\<^sup>4\<close> or more is infinite.
\<close>

datatype float64 = Finite rat | PosInf | NegInf | NaN

fun bit_length :: "nat \<Rightarrow> nat" where
  "bit_length n = (if n = 0 then 0 else Suc (bit_length (n div 2)))"

declare bit_length.simps [simp del]

text \<open>The binary exponent of a positive rational \<open>a\<close>: the \<open>e\<close> with \<open>2\<^sup>e \<le> a < 2\<^sup>e\<^sup>+\<^sup>1\<close>.\<close>

definition floor_log2 :: "rat \<Rightarrow> int" where
  "floor_log2 a =
     (case quotient_of a of (p, q) \<Rightarrow>
        let d = int (bit_length (nat p)) - int (bit_length (nat q))
        in if 2 powi d \<le> a then d else d - 1)"

definition round_half_even :: "rat \<Rightarrow> int" where
  "round_half_even x =
     (let f = \<lfloor>x\<rfloor>; r = x - of_int f
      in if r < 1 / 2 then f else if 1 / 2 < r then f + 1 else if even f then f else f + 1)"

definition round64_pos :: "rat \<Rightarrow> float64" where
  "round64_pos a =
     (let e = max (floor_log2 a) (- 1022);
          ulp = 2 powi (e - 52);
          n = round_half_even (a / ulp)
      in if 1024 \<le> e \<or> (e = 1023 \<and> n = 2 ^ 53) then PosInf else Finite (of_int n * ulp))"

fun f64_neg :: "float64 \<Rightarrow> float64" where
  "f64_neg (Finite r) = Finite (- r)"
| "f64_neg PosInf = NegInf"
| "f64_neg NegInf = PosInf"
| "f64_neg NaN = NaN"

definition round64 :: "rat \<Rightarrow> float64" where
  "round64 q =
     (if q = 0 then Finite 0
      else if 0 < q then round64_pos q
      else f64_neg (round64_pos (- q)))"

text \<open>Division \<^verbatim>\<open>x / y\<close> and comparison \<^verbatim>\<open>x >= y\<close>; a comparison with NaN is false.\<close>

fun f64_div :: "float64 \<Rightarrow> float64 \<Rightarrow> float64" where
  "f64_div NaN y = NaN"
| "f64_div x NaN = NaN"
| "f64_div (Finite a) (Finite b) =
     (if b = 0 then (if a = 0 then NaN else if 0 < a then PosInf else NegInf)
      else round64 (a / b))"
| "f64_div (Finite a) y = Finite 0"
| "f64_div x (Finite b) = (if 0 \<le> b then x else f64_neg x)"
| "f64_div x y = NaN"

fun f64_ge :: "float64 \<Rightarrow> float64 \<Rightarrow> bool" where
  "f64_ge NaN y = False"
| "f64_ge x NaN = False"
| "f64_ge (Finite a) (Finite b) = (b \<le> a)"
| "f64_ge PosInf y = True"
| "f64_ge x NegInf = True"
| "f64_ge x y = False"

text \<open>The conversion \<^verbatim>\<open>float64(n)\<close> of a \<^verbatim>\<open>uint32\<close>, which is exact.\<close>

definition float64_of_uint32 :: "32 word \<Rightarrow> float64" where
  "float64_of_uint32 n = Finite (of_nat (unat n))"

subsection \<open>Configuration, counts, settings\<close>

record CircuitBreakerRegistryConfig =
  MaxHalfOpenRequests :: "32 word"
  OpenStateTimeout :: int
  MinRequestsBeforeTrip :: "32 word"
  FailureThresholdPercent :: float64

text \<open>\<^verbatim>\<open>gobreaker.Counts\<close>.\<close>

record Counts =
  Requests :: "32 word"
  TotalSuccesses :: "32 word"
  TotalFailures :: "32 word"
  ConsecutiveSuccesses :: "32 word"
  ConsecutiveFailures :: "32 word"

text \<open>
  The closure \<^verbatim>\<open>NewCircuitBreakerRegistry\<close> stores in \<^verbatim>\<open>settings.ReadyToTrip\<close>:
  \<^verbatim>\<open>failureRatio := float64(counts.TotalFailures) / float64(counts.Requests)\<close>, then
  \<^verbatim>\<open>counts.Requests >= MinRequestsBeforeTrip && failureRatio >= FailureThresholdPercent/100\<close>.
\<close>

definition ReadyToTrip :: "CircuitBreakerRegistryConfig \<Rightarrow> Counts \<Rightarrow> bool" where
  "ReadyToTrip config counts =
     (let failureRatio =
            f64_div (float64_of_uint32 (TotalFailures counts)) (float64_of_uint32 (Requests counts))
      in MinRequestsBeforeTrip config \<le> Requests counts
         \<and> f64_ge failureRatio (f64_div (FailureThresholdPercent config) (Finite 100)))"

text \<open>\<^verbatim>\<open>gobreaker.Settings\<close>, the fields the registry sets.\<close>

record Settings =
  Name :: string
  MaxRequests :: "32 word"
  Timeout :: int
  ReadyToTrip_of :: "Counts \<Rightarrow> bool"

subsection \<open>Breakers and the registry\<close>

text \<open>
  A breaker is an object on the heap and \<^verbatim>\<open>GetOrCreate\<close> returns a pointer to it, so the
  heap is a map from addresses to breakers and the registry's \<^verbatim>\<open>sync.Map\<close> a map from host
  to address. \<^verbatim>\<open>gobreaker.NewCircuitBreaker\<close> allocates a breaker with the given settings,
  closed and with zero counts.
\<close>

datatype State = StateClosed | StateHalfOpen | StateOpen

record CircuitBreaker =
  cb_settings :: Settings
  cb_state :: State
  cb_counts :: Counts

record CircuitBreakerRegistry =
  heap :: "nat \<rightharpoonup> CircuitBreaker"
  next_addr :: nat
  breakers :: "string \<rightharpoonup> nat"
  settings :: Settings

definition NewCircuitBreakerRegistry :: "CircuitBreakerRegistryConfig \<Rightarrow> CircuitBreakerRegistry" where
  "NewCircuitBreakerRegistry config =
     \<lparr>heap = Map.empty, next_addr = 0, breakers = Map.empty,
      settings =
        \<lparr>Name = [], MaxRequests = MaxHalfOpenRequests config, Timeout = OpenStateTimeout config,
         ReadyToTrip_of = ReadyToTrip config\<rparr>\<rparr>"

definition NewCircuitBreaker :: "Settings \<Rightarrow> CircuitBreakerRegistry \<Rightarrow> nat \<times> CircuitBreakerRegistry" where
  "NewCircuitBreaker st r =
     (next_addr r,
      r\<lparr>heap := (heap r)(next_addr r \<mapsto>
             \<lparr>cb_settings = st, cb_state = StateClosed,
              cb_counts = \<lparr>Requests = 0, TotalSuccesses = 0, TotalFailures = 0,
                           ConsecutiveSuccesses = 0, ConsecutiveFailures = 0\<rparr>\<rparr>),
        next_addr := Suc (next_addr r)\<rparr>)"

text \<open>\<^verbatim>\<open>sync.Map\<close>: \<^verbatim>\<open>Load\<close>, and \<^verbatim>\<open>LoadOrStore\<close>, which keeps an entry that is already there.\<close>

definition Load :: "string \<Rightarrow> CircuitBreakerRegistry \<Rightarrow> nat option" where
  "Load key r = breakers r key"

definition LoadOrStore :: "string \<Rightarrow> nat \<Rightarrow> CircuitBreakerRegistry \<Rightarrow> (nat \<times> bool) \<times> CircuitBreakerRegistry" where
  "LoadOrStore key v r =
     (case breakers r key of
        Some actual \<Rightarrow> ((actual, True), r)
      | None \<Rightarrow> ((v, False), r\<lparr>breakers := (breakers r)(key \<mapsto> v)\<rparr>))"

text \<open>
  \<^verbatim>\<open>GetOrCreate\<close> in its two atomic parts: the \<^verbatim>\<open>Load\<close>, which returns the breaker found,
  and, after a miss, the creation of a breaker named after the host and the
  \<^verbatim>\<open>LoadOrStore\<close>, which returns whichever breaker the map then holds.
\<close>

definition create_and_store :: "string \<Rightarrow> CircuitBreakerRegistry \<Rightarrow> nat \<times> CircuitBreakerRegistry" where
  "create_and_store host r =
     (case NewCircuitBreaker ((settings r)\<lparr>Name := host\<rparr>) r of
        (cb, r1) \<Rightarrow> (case LoadOrStore host cb r1 of ((actual, _), r2) \<Rightarrow> (actual, r2)))"

definition GetOrCreate :: "string \<Rightarrow> CircuitBreakerRegistry \<Rightarrow> nat \<times> CircuitBreakerRegistry" where
  "GetOrCreate host r =
     (case Load host r of
        Some cb \<Rightarrow> (cb, r)
      | None \<Rightarrow> create_and_store host r)"

text \<open>\<^verbatim>\<open>cb.Name()\<close> of the breaker at an address.\<close>

definition Name_at :: "CircuitBreakerRegistry \<Rightarrow> nat \<Rightarrow> string option" where
  "Name_at r a = map_option (\<lambda>cb. Name (cb_settings cb)) (heap r a)"

text \<open>
  Calls of \<^verbatim>\<open>GetOrCreate\<close> running at once. The shared state is the \<^verbatim>\<open>sync.Map\<close>, whose
  \<^verbatim>\<open>Load\<close> and \<^verbatim>\<open>LoadOrStore\<close> are atomic, and the allocator. A call is before its
  \<^verbatim>\<open>Load\<close>, after a missed \<^verbatim>\<open>Load\<close> and before it creates its breaker, holding the breaker
  it created and before its \<^verbatim>\<open>LoadOrStore\<close>, or has returned an address. A schedule names,
  step by step, the call that takes its next atomic step.
\<close>

datatype progress = AtLoad | AtNew | AtStore nat | Returned nat

fun step_call :: "string \<Rightarrow> progress \<Rightarrow> CircuitBreakerRegistry \<Rightarrow> progress \<times> CircuitBreakerRegistry" where
  "step_call host AtLoad r = (case Load host r of Some cb \<Rightarrow> (Returned cb, r) | None \<Rightarrow> (AtNew, r))"
| "step_call host AtNew r =
     (case NewCircuitBreaker ((settings r)\<lparr>Name := host\<rparr>) r of (cb, r') \<Rightarrow> (AtStore cb, r'))"
| "step_call host (AtStore cb) r =
     (case LoadOrStore host cb r of ((actual, _), r') \<Rightarrow> (Returned actual, r'))"
| "step_call host (Returned a) r = (Returned a, r)"

definition step ::
  "string list \<Rightarrow> nat \<Rightarrow> progress list \<times> CircuitBreakerRegistry \<Rightarrow> progress list \<times> CircuitBreakerRegistry" where
  "step hosts i = (\<lambda>(ps, r).
     if i < length ps \<and> i < length hosts
     then (case step_call (hosts ! i) (ps ! i) r of (p, r') \<Rightarrow> (ps[i := p], r'))
     else (ps, r))"

definition run ::
  "string list \<Rightarrow> nat list \<Rightarrow> CircuitBreakerRegistry \<Rightarrow> progress list \<times> CircuitBreakerRegistry" where
  "run hosts schedule r = foldl (\<lambda>c i. step hosts i c) (replicate (length hosts) AtLoad, r) schedule"

text \<open>The atomic steps a call has behind it; a call returns with its third step at the latest.\<close>

fun steps_done :: "progress \<Rightarrow> nat" where
  "steps_done AtLoad = 0"
| "steps_done AtNew = 1"
| "steps_done (AtStore cb) = 2"
| "steps_done (Returned a) = 3"

text \<open>A registry is well formed when every host's entry points at a breaker named after it.\<close>

definition registry_ok :: "CircuitBreakerRegistry \<Rightarrow> bool" where
  "registry_ok r =
     ((\<forall>h a. breakers r h = Some a \<longrightarrow> a < next_addr r \<and> Name_at r a = Some h)
      \<and> (\<forall>a. next_addr r \<le> a \<longrightarrow> heap r a = None))"

text \<open>
  What a call in progress knows of the registry: the breaker it holds is allocated and named
  after its host, the address it returned is its host's entry. A later registry keeps what
  an earlier one had: allocated breakers and entries of the map stay.
\<close>

fun call_ok :: "string \<Rightarrow> progress \<Rightarrow> CircuitBreakerRegistry \<Rightarrow> bool" where
  "call_ok host AtLoad r = True"
| "call_ok host AtNew r = True"
| "call_ok host (AtStore cb) r = (cb < next_addr r \<and> Name_at r cb = Some host)"
| "call_ok host (Returned a) r = (breakers r host = Some a)"

definition keeps :: "CircuitBreakerRegistry \<Rightarrow> CircuitBreakerRegistry \<Rightarrow> bool" where
  "keeps r r' =
     (next_addr r \<le> next_addr r'
      \<and> (\<forall>a<next_addr r. heap r' a = heap r a)
      \<and> (\<forall>h a. breakers r h = Some a \<longrightarrow> breakers r' h = Some a))"

definition calls_ok :: "string list \<Rightarrow> progress list \<times> CircuitBreakerRegistry \<Rightarrow> bool" where
  "calls_ok hosts = (\<lambda>(ps, r).
     length ps = length hosts \<and> registry_ok r \<and> (\<forall>i<length ps. call_ok (hosts ! i) (ps ! i) r))"

text \<open>The defaults of \<^verbatim>\<open>CircuitBreakerRegistryConfig\<close> (its \<^verbatim>\<open>default\<close> tags; 60s in nanoseconds).\<close>

definition default_config :: CircuitBreakerRegistryConfig where
  "default_config =
     \<lparr>MaxHalfOpenRequests = 5, OpenStateTimeout = 60000000000, MinRequestsBeforeTrip = 3,
      FailureThresholdPercent = Finite 60\<rparr>"

text \<open>
  Three calls, the first and the third for the same host, racing: both miss the \<^verbatim>\<open>Load\<close>,
  both create a breaker, the third stores first.
\<close>

definition racing_hosts :: "string list" where
  "racing_hosts = [''api1.example.com'', ''api2.example.com'', ''api1.example.com'']"

definition racing_schedule :: "nat list" where
  "racing_schedule = [0, 2, 0, 2, 2, 0, 1, 1, 1]"

text \<open>Five calls observed by a breaker, of which the given number failed.\<close>

definition five_calls :: "32 word \<Rightarrow> Counts" where
  "five_calls failures =
     \<lparr>Requests = 5, TotalSuccesses = 5 - failures, TotalFailures = failures,
      ConsecutiveSuccesses = 0, ConsecutiveFailures = failures\<rparr>"

definition two_calls_failed :: Counts where
  "two_calls_failed =
     \<lparr>Requests = 2, TotalSuccesses = 0, TotalFailures = 2,
      ConsecutiveSuccesses = 0, ConsecutiveFailures = 2\<rparr>"
section \<open>Properties of the dispatch loop\<close>

lemma delivery_req [simp]:
  "delivery s ctx (req\<lparr>NotificationRequest.SecretKey := x\<rparr>) p w = delivery s ctx req p w"
  by (simp add: delivery_def)

lemma world_after_req [simp]:
  "world_after s ctx (req\<lparr>NotificationRequest.SecretKey := x\<rparr>) ps w = world_after s ctx req ps w"
  by (simp add: world_after_def)

lemma attempt_fails_req [simp]:
  "attempt_fails s ctx (req\<lparr>NotificationRequest.SecretKey := x\<rparr>) ps w i = attempt_fails s ctx req ps w i"
  by (simp add: attempt_fails_def)

lemma post_call_req [simp]:
  "post_call ctx (req\<lparr>NotificationRequest.SecretKey := x\<rparr>) p = post_call ctx req p"
  by (simp add: post_call_def)

lemma world_after_Nil [simp]: "world_after s ctx req [] w = w"
  by (simp add: world_after_def)

lemma world_after_Cons [simp]:
  "world_after s ctx req (p # ps) w = world_after s ctx req ps (snd (delivery s ctx req p w))"
  by (simp add: world_after_def)

lemma attempt_fails_0 [simp]:
  "attempt_fails s ctx req (p # ps) w 0 = (fst (delivery s ctx req p w) \<noteq> None)"
  by (simp add: attempt_fails_def)

lemma attempt_fails_Suc [simp]:
  "attempt_fails s ctx req (p # ps) w (Suc i) =
     attempt_fails s ctx req ps (snd (delivery s ctx req p w)) i"
  by (simp add: attempt_fails_def)

lemma Post_recording:
  "Post (httpclient (recording s)) ctx (Host p)
      (req\<lparr>NotificationRequest.SecretKey := NotificationPreference.SecretKey p\<rparr>) (calls, w) =
   (fst (delivery s ctx req p w), (calls @ [post_call ctx req p], snd (delivery s ctx req p w)))"
  by (simp add: recording_def logged_def delivery_def post_call_def split: prod.splits)

text \<open>The run up to the first success, from any log and world.\<close>

lemma sendNotification_first_success:
  "k < length ps \<Longrightarrow> \<forall>i<k. attempt_fails s ctx req ps w i \<Longrightarrow> \<not> attempt_fails s ctx req ps w k \<Longrightarrow>
   sendNotification (recording s) ctx ps req (calls, w) =
     (None, (calls @ map (post_call ctx req) (take (Suc k) ps),
             world_after s ctx req (take (Suc k) ps) w))"
proof (induction ps arbitrary: k calls w req)
  case Nil
  then show ?case by simp
next
  case (Cons p ps)
  show ?case
  proof (cases k)
    case 0
    with Cons.prems show ?thesis
      by (simp add: Post_recording)
  next
    case (Suc j)
    from Cons.prems Suc have "fst (delivery s ctx req p w) \<noteq> None"
      by (metis attempt_fails_0 zero_less_Suc)
    then obtain e where e: "fst (delivery s ctx req p w) = Some e" by blast
    let ?w1 = "snd (delivery s ctx req p w)"
    let ?req' = "req\<lparr>NotificationRequest.SecretKey := NotificationPreference.SecretKey p\<rparr>"
    have a: "j < length ps" using Cons.prems Suc by simp
    have b: "\<forall>i<j. attempt_fails s ctx ?req' ps ?w1 i"
      using Cons.prems(2) Suc by (metis attempt_fails_Suc attempt_fails_req Suc_less_eq)
    have c: "\<not> attempt_fails s ctx ?req' ps ?w1 j"
      using Cons.prems(3) Suc by simp
    have "sendNotification (recording s) ctx ps ?req' (calls @ [post_call ctx req p], ?w1) =
      (None, ((calls @ [post_call ctx req p]) @ map (post_call ctx ?req') (take (Suc j) ps),
              world_after s ctx ?req' (take (Suc j) ps) ?w1))"
      by (rule Cons.IH [OF a b c])
    then show ?thesis using e Suc
      by (simp add: Post_recording)
  qed
qed

text \<open>The run in which every attempt fails, from any log and world.\<close>

lemma sendNotification_all_fail:
  "\<forall>i<length ps. attempt_fails s ctx req ps w i \<Longrightarrow>
   sendNotification (recording s) ctx ps req (calls, w) =
     (Some (ErrorsNew ''failure to sent the notifications''),
      (calls @ map (post_call ctx req) ps, world_after s ctx req ps w))"
proof (induction ps arbitrary: calls w req)
  case Nil
  then show ?case by simp
next
  case (Cons p ps)
  from Cons.prems have "fst (delivery s ctx req p w) \<noteq> None"
    by (metis attempt_fails_0 length_greater_0_conv list.distinct(1))
  then obtain e where e: "fst (delivery s ctx req p w) = Some e" by blast
  let ?w1 = "snd (delivery s ctx req p w)"
  let ?req' = "req\<lparr>NotificationRequest.SecretKey := NotificationPreference.SecretKey p\<rparr>"
  have b: "\<forall>i<length ps. attempt_fails s ctx ?req' ps ?w1 i"
    using Cons.prems by (metis attempt_fails_Suc attempt_fails_req Suc_less_eq length_Cons)
  have "sendNotification (recording s) ctx ps ?req' (calls @ [post_call ctx req p], ?w1) =
     (Some (ErrorsNew ''failure to sent the notifications''),
      ((calls @ [post_call ctx req p]) @ map (post_call ctx ?req') ps,
       world_after s ctx ?req' ps ?w1))"
    by (rule Cons.IH [OF b])
  then show ?case using e by (simp add: Post_recording)
qed

text \<open>Whatever the client does, the loop returns nil or its one fixed error.\<close>

lemma sendNotification_result:
  "fst (sendNotification s ctx ps req w) = None \<or>
   fst (sendNotification s ctx ps req w) = Some (ErrorsNew ''failure to sent the notifications'')"
  by (induction ps arbitrary: req w) (auto simp: Let_def split: prod.splits option.splits)

lemma mock_delivery:
  "delivery (mock_service g st f post_ret) ctx req p w =
     (post_ret ctx (Host p)
        (req\<lparr>NotificationRequest.SecretKey := NotificationPreference.SecretKey p\<rparr>), w)"
  by (simp add: delivery_def mock_service_def)

lemma mock_world_after: "world_after (mock_service g st f post_ret) ctx req ps w = w"
  by (induction ps) (simp_all add: mock_delivery)

lemma mock_attempt_fails:
  "attempt_fails (mock_service g st f post_ret) ctx req ps w i =
     (post_ret ctx (Host (ps ! i))
        (req\<lparr>NotificationRequest.SecretKey := NotificationPreference.SecretKey (ps ! i)\<rparr>) \<noteq> None)"
  by (simp add: attempt_fails_def mock_delivery mock_world_after)


text \<open>
  \<^bold>\<open>C1.\<close> Let \<open>k\<close> be the position of the first endpoint of the list whose delivery
  attempt succeeds: the attempts at positions \<open>0..k-1\<close> fail and the one at \<open>k\<close> does not,
  each taken in the world the earlier attempts leave behind. Then the calls
  \<^verbatim>\<open>sendNotification\<close> makes are exactly one \<^verbatim>\<open>Post\<close> for each of the endpoints \<open>0..k\<close>, in
  list order, each carrying that endpoint's host and secret; the result is nil; and no
  endpoint after \<open>k\<close> is called. With \<open>k = 0\<close> exactly the first endpoint is called.
\<close>

theorem sendNotification_stops_at_first_success:
  assumes "k < length preferences"
    and "\<forall>i<k. attempt_fails s ctx req preferences w i"
    and "\<not> attempt_fails s ctx req preferences w k"
  shows "sendNotification (recording s) ctx preferences req ([], w) =
           (None, (map (post_call ctx req) (take (Suc k) preferences),
                   world_after s ctx req (take (Suc k) preferences) w))"
  using sendNotification_first_success [OF assms, of "[]"] by simp

theorem sendNotification_stops_at_first_success_witness:
  "(1::nat) < length three_services
   \<and> attempt_fails
         (mock_service cache_miss set_ok find_unexpected
            (post_failing [''https://service1.com''] (ErrorsNew ''network error'')))
         Background test_request three_services () 0
   \<and> \<not> attempt_fails
         (mock_service cache_miss set_ok find_unexpected
            (post_failing [''https://service1.com''] (ErrorsNew ''network error'')))
         Background test_request three_services () 1
   \<and> sendNotification
       (recording (mock_service cache_miss set_ok find_unexpected
          (post_failing [''https://service1.com''] (ErrorsNew ''network error''))))
       Background three_services test_request ([], ())
     = (None,
        ([HTTPPost Background ''https://service1.com''
            (test_request\<lparr>NotificationRequest.SecretKey := ''secret1''\<rparr>),
          HTTPPost Background ''https://service2.com''
            (test_request\<lparr>NotificationRequest.SecretKey := ''secret2''\<rparr>)], ()))"
proof -
  let ?s = "mock_service cache_miss set_ok find_unexpected
              (post_failing [''https://service1.com''] (ErrorsNew ''network error''))
            :: unit NotificationService"
  have a: "(1::nat) < length three_services"
    by (simp add: three_services_def)
  have b: "\<forall>i<1. attempt_fails ?s Background test_request three_services () i"
    by (simp add: mock_attempt_fails mock_delivery three_services_def endpoint_def post_failing_def)
  have c: "\<not> attempt_fails ?s Background test_request three_services () 1"
    by (simp add: mock_attempt_fails mock_delivery three_services_def endpoint_def post_failing_def)
  have b0: "attempt_fails ?s Background test_request three_services () 0"
    using b by simp
  from sendNotification_stops_at_first_success [OF a b c] a b0 c show ?thesis
    by (simp add: three_services_def endpoint_def post_call_def mock_world_after)
qed


text \<open>
  \<^bold>\<open>C5.\<close> When the delivery attempt at every position of the list fails,
  \<^verbatim>\<open>sendNotification\<close> makes one \<^verbatim>\<open>Post\<close> per endpoint, in list order, and returns the
  fixed error \<^verbatim>\<open>failure to sent the notifications\<close>, which carries none of the errors
  the attempts returned. On the empty list it returns that error and makes no call.
\<close>

theorem sendNotification_exhausted:
  "((\<forall>i<length preferences. attempt_fails s ctx req preferences w i) \<longrightarrow>
     sendNotification (recording s) ctx preferences req ([], w) =
       (Some (ErrorsNew ''failure to sent the notifications''),
        (map (post_call ctx req) preferences, world_after s ctx req preferences w)))
   \<and> sendNotification (recording s) ctx [] req ([], w) =
       (Some (ErrorsNew ''failure to sent the notifications''), ([], w))"
  using sendNotification_all_fail [of preferences s ctx req w "[]"] by simp

theorem sendNotification_exhausted_witness:
  "attempt_fails
       (mock_service cache_miss set_ok find_unexpected
          (post_failing [''https://service1.com'', ''https://service2.com'']
             (ErrorsNew ''connection failed'')))
       Background test_request (take 2 three_services) () 0
   \<and> attempt_fails
       (mock_service cache_miss set_ok find_unexpected
          (post_failing [''https://service1.com'', ''https://service2.com'']
             (ErrorsNew ''connection failed'')))
       Background test_request (take 2 three_services) () 1
   \<and> sendNotification
       (recording (mock_service cache_miss set_ok find_unexpected
          (post_failing [''https://service1.com'', ''https://service2.com'']
             (ErrorsNew ''connection failed''))))
       Background (take 2 three_services) test_request ([], ())
     = (Some (ErrorsNew ''failure to sent the notifications''),
        ([HTTPPost Background ''https://service1.com''
            (test_request\<lparr>NotificationRequest.SecretKey := ''secret1''\<rparr>),
          HTTPPost Background ''https://service2.com''
            (test_request\<lparr>NotificationRequest.SecretKey := ''secret2''\<rparr>)], ()))"
proof -
  let ?s = "mock_service cache_miss set_ok find_unexpected
              (post_failing [''https://service1.com'', ''https://service2.com'']
                 (ErrorsNew ''connection failed''))
            :: unit NotificationService"
  have t: "take 2 three_services =
             [endpoint ''https://service1.com'' ''secret1'',
              endpoint ''https://service2.com'' ''secret2'']"
    by (simp add: three_services_def)
  have a: "\<forall>i<length (take 2 three_services).
             attempt_fails ?s Background test_request (take 2 three_services) () i"
    unfolding t
    by (simp add: mock_attempt_fails mock_delivery endpoint_def post_failing_def nth_Cons
          split: nat.splits)
  have a0: "attempt_fails ?s Background test_request (take 2 three_services) () 0"
    and a1: "attempt_fails ?s Background test_request (take 2 three_services) () 1"
    using a [rule_format, of 0] a [rule_format, of 1] by (simp_all add: t)
  from sendNotification_exhausted [of "take 2 three_services" ?s Background test_request "()"] a
  have "sendNotification (recording ?s) Background (take 2 three_services) test_request ([], ()) =
          (Some (ErrorsNew ''failure to sent the notifications''),
           (map (post_call Background test_request) (take 2 three_services),
            world_after ?s Background test_request (take 2 three_services) ()))"
    by blast
  then have "sendNotification (recording ?s) Background (take 2 three_services) test_request ([], ()) =
          (Some (ErrorsNew ''failure to sent the notifications''),
           ([HTTPPost Background ''https://service1.com''
               (test_request\<lparr>NotificationRequest.SecretKey := ''secret1''\<rparr>),
             HTTPPost Background ''https://service2.com''
               (test_request\<lparr>NotificationRequest.SecretKey := ''secret2''\<rparr>)], ()))"
    by (simp add: t endpoint_def post_call_def)
  with a0 a1 show ?thesis by blast
qed

lemma cancelled_attempt_fails:
  "fails_when_cancelled s \<Longrightarrow> Err ctx \<noteq> None \<Longrightarrow> attempt_fails s ctx req ps w i"
  by (simp add: fails_when_cancelled_def attempt_fails_def delivery_def)

text \<open>
  \<^bold>\<open>C6\<close> (as amended). The loop never looks at the context: it hands it to \<^verbatim>\<open>Post\<close>
  and treats whatever error comes back like any other failure. So when the context is
  cancelled and the client fails every attempt because of it, \<^verbatim>\<open>sendNotification\<close>
  still makes one \<^verbatim>\<open>Post\<close> per endpoint, in list order, and returns the fixed error
  \<^verbatim>\<open>failure to sent the notifications\<close>; and with any client at all, the error it
  returns is never the cancellation error.
\<close>

theorem sendNotification_cancelled_context:
  assumes "fails_when_cancelled s" and "Err ctx \<noteq> None"
  shows "sendNotification (recording s) ctx preferences req ([], w) =
           (Some (ErrorsNew ''failure to sent the notifications''),
            (map (post_call ctx req) preferences, world_after s ctx req preferences w))
         \<and> fst (sendNotification s ctx preferences req w) \<noteq> Some Canceled"
proof -
  have "sendNotification (recording s) ctx preferences req ([], w) =
           (Some (ErrorsNew ''failure to sent the notifications''),
            (map (post_call ctx req) preferences, world_after s ctx req preferences w))"
    using sendNotification_all_fail [of preferences s ctx req w "[]"]
      cancelled_attempt_fails [OF assms]
    by simp
  moreover have "fst (sendNotification s ctx preferences req w) \<noteq> Some Canceled"
    using sendNotification_result [of s ctx preferences req w] by auto
  ultimately show ?thesis by blast
qed

lemma mock_fails_when_cancelled:
  "fails_when_cancelled (mock_service g st f post_unless_cancelled)"
  by (auto simp: fails_when_cancelled_def mock_service_def post_unless_cancelled_def)

theorem sendNotification_cancelled_context_witness:
  "fails_when_cancelled
     (mock_service cache_miss set_ok find_unexpected post_unless_cancelled :: unit NotificationService)
   \<and> Err cancelled \<noteq> None
   \<and> sendNotification
        (recording (mock_service cache_miss set_ok find_unexpected post_unless_cancelled))
        cancelled (take 2 three_services) test_request ([], ()) =
       (Some (ErrorsNew ''failure to sent the notifications''),
        ([HTTPPost cancelled ''https://service1.com''
            (test_request\<lparr>NotificationRequest.SecretKey := ''secret1''\<rparr>),
          HTTPPost cancelled ''https://service2.com''
            (test_request\<lparr>NotificationRequest.SecretKey := ''secret2''\<rparr>)], ()))"
proof -
  let ?s = "mock_service cache_miss set_ok find_unexpected post_unless_cancelled
            :: unit NotificationService"
  have a: "fails_when_cancelled ?s" by (rule mock_fails_when_cancelled)
  have b: "Err cancelled \<noteq> None" by (simp add: cancelled_def)
  from sendNotification_cancelled_context [OF a b, of "take 2 three_services" test_request "()"]
  have "sendNotification (recording ?s) cancelled (take 2 three_services) test_request ([], ()) =
       (Some (ErrorsNew ''failure to sent the notifications''),
        (map (post_call cancelled test_request) (take 2 three_services),
         world_after ?s cancelled test_request (take 2 three_services) ()))"
    by blast
  then have "sendNotification (recording ?s) cancelled (take 2 three_services) test_request ([], ()) =
       (Some (ErrorsNew ''failure to sent the notifications''),
        ([HTTPPost cancelled ''https://service1.com''
            (test_request\<lparr>NotificationRequest.SecretKey := ''secret1''\<rparr>),
          HTTPPost cancelled ''https://service2.com''
            (test_request\<lparr>NotificationRequest.SecretKey := ''secret2''\<rparr>)], ()))"
    by (simp add: three_services_def endpoint_def post_call_def mock_world_after)
  with a b show ?thesis by blast
qed

text \<open>
  The claim as stated fails: with the context cancelled before the loop starts and the
  cancellation tests' client, both endpoints are posted to and the caller receives the
  fixed aggregate error, not \<^verbatim>\<open>context.Canceled\<close>.
\<close>

theorem sendNotification_cancelled_counterexample:
  "fst (sendNotification
          (recording (mock_service cache_miss set_ok find_unexpected post_unless_cancelled))
          cancelled (take 2 three_services) test_request ([], ()))
     = Some (ErrorsNew ''failure to sent the notifications'')
   \<and> fst (sendNotification
          (recording (mock_service cache_miss set_ok find_unexpected post_unless_cancelled))
          cancelled (take 2 three_services) test_request ([], ()))
     \<noteq> Some Canceled
   \<and> fst (snd (sendNotification
          (recording (mock_service cache_miss set_ok find_unexpected post_unless_cancelled))
          cancelled (take 2 three_services) test_request ([], ())))
     = [HTTPPost cancelled ''https://service1.com''
            (test_request\<lparr>NotificationRequest.SecretKey := ''secret1''\<rparr>),
        HTTPPost cancelled ''https://service2.com''
            (test_request\<lparr>NotificationRequest.SecretKey := ''secret2''\<rparr>)]"
  by (simp add: three_services_def endpoint_def mock_service_def recording_def logged_def
      post_unless_cancelled_def cancelled_def)

section \<open>Properties of the resolver\<close>

lemma Get_recording:
  "Get (cacheProvider (recording s)) ch (calls, w) =
     (fst (Get (cacheProvider s) ch w), (calls @ [CacheGet ch], snd (Get (cacheProvider s) ch w)))"
  by (simp add: recording_def logged_def split: prod.splits)

lemma Set_recording:
  "Set (cacheProvider (recording s)) ch v (calls, w) =
     (fst (Set (cacheProvider s) ch v w), (calls @ [CacheSet ch v], snd (Set (cacheProvider s) ch v w)))"
  by (simp add: recording_def logged_def split: prod.splits)

lemma Find_recording:
  "FindByProviderType (persistentProvider (recording s)) ctx ch (calls, w) =
     (fst (FindByProviderType (persistentProvider s) ctx ch w),
      (calls @ [StoreFind ctx ch], snd (FindByProviderType (persistentProvider s) ctx ch w)))"
  by (simp add: recording_def logged_def split: prod.splits)

lemma resolve_hit:
  "Get (cacheProvider s) ch w = ((cached, None), w1) \<Longrightarrow>
   getNotificationPreferences (recording s) ctx ch (calls, w) = ((cached, None), (calls @ [CacheGet ch], w1))"
  by (simp add: getNotificationPreferences_def Get_recording)

lemma resolve_store_error:
  "Get (cacheProvider s) ch w = ((x, Some ce), w1) \<Longrightarrow>
   FindByProviderType (persistentProvider s) ctx ch w1 = ((y, Some e), w2) \<Longrightarrow>
   getNotificationPreferences (recording s) ctx ch (calls, w) =
     (([], Some e), (calls @ [CacheGet ch, StoreFind ctx ch], w2))"
  by (simp add: getNotificationPreferences_def Get_recording Find_recording)

lemma resolve_store_success:
  "Get (cacheProvider s) ch w = ((x, Some ce), w1) \<Longrightarrow>
   FindByProviderType (persistentProvider s) ctx ch w1 = ((found, None), w2) \<Longrightarrow>
   getNotificationPreferences (recording s) ctx ch (calls, w) =
     ((found, None), (calls @ [CacheGet ch, StoreFind ctx ch, CacheSet ch found],
        snd (Set (cacheProvider s) ch found w2)))"
  by (simp add: getNotificationPreferences_def Get_recording Find_recording Set_recording
      split: prod.splits)

lemma resolve_unrecorded:
  "getNotificationPreferences (recording s) ctx ch (calls, w) = (r, (calls', w')) \<Longrightarrow>
   getNotificationPreferences s ctx ch w = (r, w')"
  by (auto simp: getNotificationPreferences_def Get_recording Find_recording Set_recording
      split: prod.splits option.splits)

text \<open>
  \<^bold>\<open>C3.\<close> The resolver, run against call-recording collaborators, for any channel:
  when the cache's \<^verbatim>\<open>Get\<close> returns a nil error, the cached list is returned and
  \<^verbatim>\<open>Get\<close> is the only call made (no store access, no cache write); when \<^verbatim>\<open>Get\<close>
  returns an error the store is queried next; a store error is returned as it is, with
  no call after the store's (no cache write); a store result is written to the cache with
  \<^verbatim>\<open>Set\<close> and returned.
\<close>

theorem getNotificationPreferences_cache_aside:
  "(Get (cacheProvider s) ch w = ((cached, None), w1) \<longrightarrow>
      getNotificationPreferences (recording s) ctx ch ([], w) = ((cached, None), ([CacheGet ch], w1)))
   \<and> (Get (cacheProvider s) ch w = ((x, Some ce), w1)
        \<and> FindByProviderType (persistentProvider s) ctx ch w1 = ((y, Some e), w2) \<longrightarrow>
      getNotificationPreferences (recording s) ctx ch ([], w) =
        (([], Some e), ([CacheGet ch, StoreFind ctx ch], w2)))
   \<and> (Get (cacheProvider s) ch w = ((x, Some ce), w1)
        \<and> FindByProviderType (persistentProvider s) ctx ch w1 = ((found, None), w2) \<longrightarrow>
      getNotificationPreferences (recording s) ctx ch ([], w) =
        ((found, None), ([CacheGet ch, StoreFind ctx ch, CacheSet ch found],
           snd (Set (cacheProvider s) ch found w2))))"
  using resolve_hit [of s ch w cached w1 ctx "[]"]
    resolve_store_error [of s ch w x ce w1 ctx y e w2 "[]"]
    resolve_store_success [of s ch w x ce w1 ctx found w2 "[]"]
  by simp

theorem getNotificationPreferences_cache_aside_witness:
  "getNotificationPreferences
     (recording (mock_service
        (get_returning ([endpoint ''https://email-service.com'' ''secret1''], None))
        set_ok find_unexpected post_unless_cancelled))
     Background EmailProvider ([], ())
   = (([endpoint ''https://email-service.com'' ''secret1''], None), ([CacheGet EmailProvider], ()))
   \<and> getNotificationPreferences
     (recording (mock_service cache_miss set_ok
        (find_returning ([], Some (ErrorsNew ''database connection error'')))
        post_unless_cancelled))
     Background EmailProvider ([], ())
   = (([], Some (ErrorsNew ''database connection error'')),
      ([CacheGet EmailProvider, StoreFind Background EmailProvider], ()))
   \<and> getNotificationPreferences
     (recording (mock_service cache_miss set_ok
        (find_returning ([endpoint ''https://push-service.com'' ''push-secret''], None))
        post_unless_cancelled))
     Background PushNotificationProvider ([], ())
   = (([endpoint ''https://push-service.com'' ''push-secret''], None),
      ([CacheGet PushNotificationProvider, StoreFind Background PushNotificationProvider,
        CacheSet PushNotificationProvider [endpoint ''https://push-service.com'' ''push-secret'']], ()))"
proof -
  let ?hit = "mock_service
        (get_returning ([endpoint ''https://email-service.com'' ''secret1''], None))
        set_ok find_unexpected post_unless_cancelled :: unit NotificationService"
  let ?err = "mock_service cache_miss set_ok
        (find_returning ([], Some (ErrorsNew ''database connection error'')))
        post_unless_cancelled :: unit NotificationService"
  let ?ok = "mock_service cache_miss set_ok
        (find_returning ([endpoint ''https://push-service.com'' ''push-secret''], None))
        post_unless_cancelled :: unit NotificationService"
  have h1: "Get (cacheProvider ?hit) EmailProvider () =
              (([endpoint ''https://email-service.com'' ''secret1''], None), ())"
    by (simp add: mock_service_def get_returning_def)
  have h2: "Get (cacheProvider ?err) EmailProvider () = (([], Some (ErrorsNew ''cache miss'')), ())
            \<and> FindByProviderType (persistentProvider ?err) Background EmailProvider () =
                (([], Some (ErrorsNew ''database connection error'')), ())"
    by (simp add: mock_service_def cache_miss_def find_returning_def)
  have h3: "Get (cacheProvider ?ok) PushNotificationProvider () =
              (([], Some (ErrorsNew ''cache miss'')), ())
            \<and> FindByProviderType (persistentProvider ?ok) Background PushNotificationProvider () =
                (([endpoint ''https://push-service.com'' ''push-secret''], None), ())"
    by (simp add: mock_service_def cache_miss_def find_returning_def)
  have s3: "snd (Set (cacheProvider ?ok) PushNotificationProvider
                  [endpoint ''https://push-service.com'' ''push-secret''] ()) = ()"
    by simp
  from getNotificationPreferences_cache_aside
         [of ?hit EmailProvider "()" "[endpoint ''https://email-service.com'' ''secret1'']" "()"
             Background] h1
  have r1: "getNotificationPreferences (recording ?hit) Background EmailProvider ([], ()) =
          (([endpoint ''https://email-service.com'' ''secret1''], None), ([CacheGet EmailProvider], ()))"
    by blast
  from getNotificationPreferences_cache_aside
         [of ?err EmailProvider "()" _ "()" Background "[]" "ErrorsNew ''cache miss''" "[]"
             "ErrorsNew ''database connection error''" "()"] h2
  have r2: "getNotificationPreferences (recording ?err) Background EmailProvider ([], ()) =
          (([], Some (ErrorsNew ''database connection error'')),
           ([CacheGet EmailProvider, StoreFind Background EmailProvider], ()))"
    by blast
  from getNotificationPreferences_cache_aside
         [of ?ok PushNotificationProvider "()" _ "()" Background "[]" "ErrorsNew ''cache miss''"
             _ _ "()" "[endpoint ''https://push-service.com'' ''push-secret'']"] h3 s3
  have r3: "getNotificationPreferences (recording ?ok) Background PushNotificationProvider ([], ()) =
          (([endpoint ''https://push-service.com'' ''push-secret''], None),
           ([CacheGet PushNotificationProvider, StoreFind Background PushNotificationProvider,
             CacheSet PushNotificationProvider [endpoint ''https://push-service.com'' ''push-secret'']], ()))"
    by simp
  from r1 r2 r3 show ?thesis by blast
qed



section \<open>Properties of the repository layer\<close>

lemma Persistent_world [simp]: "snd (Persistent_FindByProviderType ctx provider w) = w"
  by (simp add: Persistent_FindByProviderType_def split: prod.splits option.splits)

lemma Persistent_success_nonempty:
  "Persistent_FindByProviderType ctx provider w = ((preferences, None), w') \<Longrightarrow> preferences \<noteq> []"
  by (auto simp: Persistent_FindByProviderType_def split: prod.splits option.splits if_splits)

lemma Cache_Get_world [simp]: "snd (Cache_Get key w) = w"
  by (simp add: Cache_Get_def split: prod.splits)

lemma Cache_Get_hit:
  "Cache_Get key w = ((v, None), w') \<Longrightarrow>
   \<exists>e. engine (cache w) (cacheKey key) = Some (v, e) \<and> now w < e"
  by (auto simp: Cache_Get_def engine_Get_def split: prod.splits option.splits if_splits)

lemma Cache_Get_hit_iff:
  "fst (Cache_Get key w) = (v, None) \<longleftrightarrow>
   (\<exists>e. engine (cache w) (cacheKey key) = Some (v, e) \<and> now w < e)"
  by (auto simp: Cache_Get_def engine_Get_def split: prod.splits option.splits if_splits)

lemma Cache_Set_engine:
  "engine (cache (snd (Cache_Set key values w))) =
     (engine (cache w))(cacheKey key \<mapsto> (values, now w + expiredTime (cache w)))"
  by (simp add: Cache_Set_def engine_SetWithTTL_def)

lemma Cache_Set_other [simp]:
  "now (snd (Cache_Set key values w)) = now w"
  "conn (snd (Cache_Set key values w)) = conn w"
  "expiredTime (cache (snd (Cache_Set key values w))) = expiredTime (cache w)"
  by (simp_all add: Cache_Set_def)

lemma wired_simps [simp]:
  "Get (cacheProvider (wired h)) = Cache_Get"
  "Set (cacheProvider (wired h)) = Cache_Set"
  "FindByProviderType (persistentProvider (wired h)) = Persistent_FindByProviderType"
  by (simp_all add: wired_def NewNotificationService_def)

text \<open>What a resolve of the wired service does to the world.\<close>

lemma wired_resolve_world:
  "snd (getNotificationPreferences (wired h) ctx key w) = w \<or>
   (\<exists>ps. ps \<noteq> [] \<and> snd (getNotificationPreferences (wired h) ctx key w) = snd (Cache_Set key ps w))"
proof (cases "Cache_Get key w")
  case (Pair r w1)
  then have w1: "w1 = w" using Cache_Get_world [of key w] by simp
  obtain v ce where r: "r = (v, ce)" by (cases r)
  show ?thesis
  proof (cases ce)
    case None
    with Pair r w1 show ?thesis by (simp add: getNotificationPreferences_def)
  next
    case (Some e)
    show ?thesis
    proof (cases "Persistent_FindByProviderType ctx key w")
      case (Pair r2 w2)
      then have w2: "w2 = w" using Persistent_world [of ctx key w] by simp
      obtain ps se where r2: "r2 = (ps, se)" by (cases r2)
      show ?thesis
      proof (cases se)
        case None
        with Pair r2 w2 have "ps \<noteq> []" using Persistent_success_nonempty by blast
        with None Pair r2 w2 \<open>Cache_Get key w = (r, w1)\<close> r w1 Some show ?thesis
          by (auto simp: getNotificationPreferences_def split: prod.splits)
      next
        case (Some e2)
        with Pair r2 w2 \<open>Cache_Get key w = (r, w1)\<close> r w1 \<open>ce = Some e\<close> show ?thesis
          by (simp add: getNotificationPreferences_def)
      qed
    qed
  qed
qed

lemma wired_resolve_unfold:
  "getNotificationPreferences (wired h) ctx key w =
     (case fst (Cache_Get key w) of
        (v, None) \<Rightarrow> ((v, None), w)
      | (_, Some _) \<Rightarrow>
          (case fst (Persistent_FindByProviderType ctx key w) of
             (_, Some e) \<Rightarrow> (([], Some e), w)
           | (ps, None) \<Rightarrow> ((ps, None), snd (Cache_Set key ps w))))"
proof -
  obtain v ce where g: "fst (Cache_Get key w) = (v, ce)"
    by (cases "fst (Cache_Get key w)")
  then have G: "Cache_Get key w = ((v, ce), w)"
    by (metis Cache_Get_world prod.collapse)
  obtain ps se where f: "fst (Persistent_FindByProviderType ctx key w) = (ps, se)"
    by (cases "fst (Persistent_FindByProviderType ctx key w)")
  then have F: "Persistent_FindByProviderType ctx key w = ((ps, se), w)"
    by (metis Persistent_world prod.collapse)
  show ?thesis
    by (cases ce; cases se)
      (simp_all add: getNotificationPreferences_def G F split: prod.splits)
qed

lemma cache_nonempty_Set:
  "cache_nonempty w \<Longrightarrow> ps \<noteq> [] \<Longrightarrow> cache_nonempty (snd (Cache_Set key ps w))"
  by (auto simp: cache_nonempty_def Cache_Set_engine)

lemma reachable_cache_nonempty: "reachable w \<Longrightarrow> cache_nonempty w"
proof (induction rule: reachable.induct)
  case (start w)
  then show ?case by (simp add: cache_nonempty_def)
next
  case (resolve w h ctx providerType)
  from wired_resolve_world [of h ctx providerType w] resolve.IH show ?case
    by (auto intro: cache_nonempty_Set)
next
  case (elapse w t db)
  then show ?case by (simp add: cache_nonempty_def)
qed

lemma Find_no_active:
  "Err ctx = None \<Longrightarrow> failure db = None \<Longrightarrow>
   \<forall>r \<in> set (rows db). provider_type r = name \<longrightarrow> deleted_at r \<noteq> None \<Longrightarrow>
   Find ctx db name = ([], None)"
  by (auto simp: Find_def filter_empty_conv)

lemma recording_wired_simps [simp]:
  "Get (cacheProvider (recording (wired h))) key (calls, w) =
     (fst (Cache_Get key w), (calls @ [CacheGet key], w))"
  "Set (cacheProvider (recording (wired h))) key v (calls, w) =
     (None, (calls @ [CacheSet key v], snd (Cache_Set key v w)))"
  "FindByProviderType (persistentProvider (recording (wired h))) ctx key (calls, w) =
     (fst (Persistent_FindByProviderType ctx key w), (calls @ [StoreFind ctx key], w))"
  by (simp_all add: Get_recording Set_recording Find_recording Cache_Set_def)

lemma store_calls_Nil [simp]: "store_calls [] = 0"
  by (simp add: store_calls_def)

lemma store_calls_Cons [simp]:
  "store_calls (c # cs) = (if is_StoreFind c then Suc (store_calls cs) else store_calls cs)"
  by (simp add: store_calls_def)

lemma store_calls_append [simp]: "store_calls (xs @ ys) = store_calls xs + store_calls ys"
  by (simp add: store_calls_def)





lemma fixture_find_email:
  "Persistent_FindByProviderType Background EmailProvider
     (fresh_world \<lparr>rows = [email_row, deleted_push_row], failure = None\<rparr>\<lparr>now := t\<rparr>) =
   (([scan email_row], None),
    fresh_world \<lparr>rows = [email_row, deleted_push_row], failure = None\<rparr>\<lparr>now := t\<rparr>)"
  by (simp add: Persistent_FindByProviderType_def Find_def Background_def fresh_world_def
      email_row_def deleted_push_row_def)


lemma fixture_cache_miss:
  "fst (Cache_Get key (fresh_world db\<lparr>now := t\<rparr>)) =
     ([], Some (ErrorsNew (''cache key: '' @ [CHR 0x27] @ cacheKey key @ [CHR 0x27]
                             @ '' not found'')))"
  by (simp add: Cache_Get_def engine_Get_def fresh_world_def)

lemma fresh_world_now [simp]: "fresh_world db\<lparr>now := 0\<rparr> = fresh_world db"
  by (simp add: fresh_world_def)




text \<open>
  \<^bold>\<open>C7.\<close> For every channel: when \<^verbatim>\<open>FindByProviderType\<close> returns a nil error the list
  it returns is not empty; when the cache's \<^verbatim>\<open>Get\<close> returns a nil error, in any world
  the wired service can reach, the list it returns is not empty; and when the query
  succeeds but the table has no row of the channel that is not deleted, the store returns
  \<^verbatim>\<open>gorm.ErrRecordNotFound\<close> with an empty list.
\<close>

theorem successful_results_nonempty:
  "(Persistent_FindByProviderType ctx provider w = ((preferences, None), wa) \<longrightarrow> preferences \<noteq> [])
   \<and> (reachable w \<and> Cache_Get key w = ((cached, None), wb) \<longrightarrow> cached \<noteq> [])
   \<and> (Err ctx = None \<and> failure (conn w) = None
        \<and> (\<forall>r \<in> set (rows (conn w)).
              provider_type r = NotificationProvider_String provider \<longrightarrow> deleted_at r \<noteq> None)
       \<longrightarrow> Persistent_FindByProviderType ctx provider w = (([], Some ErrRecordNotFound), w))"
proof (intro conjI impI)
  assume "Persistent_FindByProviderType ctx provider w = ((preferences, None), wa)"
  then show "preferences \<noteq> []" by (rule Persistent_success_nonempty)
next
  assume a: "reachable w \<and> Cache_Get key w = ((cached, None), wb)"
  then have "cache_nonempty w" by (simp add: reachable_cache_nonempty)
  moreover from a obtain e where "engine (cache w) (cacheKey key) = Some (cached, e)"
    using Cache_Get_hit by blast
  ultimately show "cached \<noteq> []" by (auto simp: cache_nonempty_def)
next
  assume "Err ctx = None \<and> failure (conn w) = None
        \<and> (\<forall>r \<in> set (rows (conn w)).
              provider_type r = NotificationProvider_String provider \<longrightarrow> deleted_at r \<noteq> None)"
  then have "Find ctx (conn w) (NotificationProvider_String provider) = ([], None)"
    using Find_no_active by blast
  then show "Persistent_FindByProviderType ctx provider w = (([], Some ErrRecordNotFound), w)"
    by (simp add: Persistent_FindByProviderType_def)
qed

theorem successful_results_nonempty_witness:
  "Persistent_FindByProviderType Background EmailProvider
      (fresh_world \<lparr>rows = [email_row, deleted_push_row], failure = None\<rparr>) =
     (([scan email_row], None), fresh_world \<lparr>rows = [email_row, deleted_push_row], failure = None\<rparr>)
   \<and> reachable (snd (getNotificationPreferences (wired no_client) Background EmailProvider
        (fresh_world \<lparr>rows = [email_row, deleted_push_row], failure = None\<rparr>)))
   \<and> fst (Cache_Get EmailProvider
        (snd (getNotificationPreferences (wired no_client) Background EmailProvider
           (fresh_world \<lparr>rows = [email_row, deleted_push_row], failure = None\<rparr>)))) =
       ([scan email_row], None)
   \<and> [scan email_row] \<noteq> []
   \<and> Persistent_FindByProviderType Background PushNotificationProvider
      (fresh_world \<lparr>rows = [email_row, deleted_push_row], failure = None\<rparr>) =
     (([], Some ErrRecordNotFound), fresh_world \<lparr>rows = [email_row, deleted_push_row], failure = None\<rparr>)"
proof -
  let ?db = "\<lparr>rows = [email_row, deleted_push_row], failure = None\<rparr>"
  let ?w = "fresh_world ?db"
  let ?w1 = "snd (getNotificationPreferences (wired no_client) Background EmailProvider ?w)"
  have a: "Persistent_FindByProviderType Background EmailProvider ?w = (([scan email_row], None), ?w)"
    using fixture_find_email [of 0] by simp
  have r: "reachable ?w1"
    by (intro reachable.resolve reachable.start) (simp add: fresh_world_def)
  have w1: "?w1 = snd (Cache_Set EmailProvider [scan email_row] ?w)"
    using fixture_cache_miss [where key = EmailProvider and db = ?db and t = 0] a
    by (simp add: wired_resolve_unfold)
  have g: "fst (Cache_Get EmailProvider ?w1) = ([scan email_row], None)"
    unfolding w1
    by (simp add: Cache_Get_def Cache_Set_def engine_Get_def engine_SetWithTTL_def fresh_world_def)
  then have g': "Cache_Get EmailProvider ?w1 = (([scan email_row], None), ?w1)"
    by (metis Cache_Get_world prod.collapse)
  have h: "Err Background = None \<and> failure (conn ?w) = None
        \<and> (\<forall>r \<in> set (rows (conn ?w)).
              provider_type r = NotificationProvider_String PushNotificationProvider
                \<longrightarrow> deleted_at r \<noteq> None)"
    by (simp add: Background_def fresh_world_def email_row_def deleted_push_row_def)
  note inst = successful_results_nonempty
    [where ctx = Background and provider = PushNotificationProvider and w = ?w1
       and key = EmailProvider and cached = "[scan email_row]" and wb = ?w1]
  note inst0 = successful_results_nonempty
    [where ctx = Background and provider = PushNotificationProvider and w = ?w]
  from inst r g' have n: "[scan email_row] \<noteq> []" by blast
  from inst0 h have p: "Persistent_FindByProviderType Background PushNotificationProvider ?w =
     (([], Some ErrRecordNotFound), ?w)" by blast
  from a r g n p show ?thesis by blast
qed





section \<open>The trip policy of the circuit breakers\<close>

subsection \<open>Rounding to binary64 keeps the order\<close>

lemma bit_length_bounds: "0 < n \<Longrightarrow> 2 ^ (bit_length n - 1) \<le> n \<and> n < 2 ^ bit_length n"
proof (induction n rule: bit_length.induct)
  case (1 n)
  show ?case
  proof (cases "n div 2 = 0")
    case True
    with "1.prems" have "n = 1" by (simp add: div_eq_0_iff) 
    then show ?thesis by (simp add: bit_length.simps)
  next
    case False
    then have h: "0 < n div 2" by simp
    with "1.IH" "1.prems" have ih: "2 ^ (bit_length (n div 2) - 1) \<le> n div 2" "n div 2 < 2 ^ bit_length (n div 2)"
      by simp_all
    have b: "bit_length n = Suc (bit_length (n div 2))" using "1.prems" by (simp add: bit_length.simps)
    have p: "0 < bit_length (n div 2)" using h by (simp add: bit_length.simps)
    from ih(1) have "2 * 2 ^ (bit_length (n div 2) - 1) \<le> n" by linarith
    moreover have "2 * 2 ^ (bit_length (n div 2) - 1) = (2::nat) ^ bit_length (n div 2)"
      using p by (cases "bit_length (n div 2)") simp_all
    moreover from ih(2) have "n < 2 * 2 ^ bit_length (n div 2)" by linarith
    ultimately show ?thesis using b by simp
  qed
qed

lemma bit_length_pos: "0 < n \<Longrightarrow> 0 < bit_length n"
  by (simp add: bit_length.simps)

lemma floor_log2_bounds:
  assumes "0 < a"
  shows "2 powi (floor_log2 a) \<le> a" and "a < 2 powi (floor_log2 a + 1)"
proof -
  obtain p q where pq: "quotient_of a = (p, q)" by (cases "quotient_of a")
  then have q: "0 < q" and a: "a = of_int p / of_int q"
    using quotient_of_denom_pos quotient_of_div by blast+
  with assms have p: "0 < p"
    by (simp add: zero_less_divide_iff)
  define lp where "lp = bit_length (nat p)"
  define lq where "lq = bit_length (nat q)"
  define d where "d = int lp - int lq"
  have lp: "0 < lp" and lq: "0 < lq" using p q by (simp_all add: lp_def lq_def bit_length_pos)
  have bp: "2 ^ (lp - 1) \<le> nat p" "nat p < 2 ^ lp"
    using bit_length_bounds [of "nat p"] p by (simp_all add: lp_def)
  have bq: "2 ^ (lq - 1) \<le> nat q" "nat q < 2 ^ lq"
    using bit_length_bounds [of "nat q"] q by (simp_all add: lq_def)
  have np: "(of_nat (nat p) :: rat) = of_int p" and nq: "(of_nat (nat q) :: rat) = of_int q"
    using p q by simp_all
  have "(of_nat (2 ^ (lp - 1)) :: rat) \<le> of_nat (nat p)" "(of_nat (nat p) :: rat) < of_nat (2 ^ lp)"
    using bp by (simp_all only: of_nat_le_iff of_nat_less_iff)
  then have rp: "(2::rat) ^ (lp - 1) \<le> of_int p" "(of_int p :: rat) < 2 ^ lp"
    unfolding np by simp_all
  have "(of_nat (2 ^ (lq - 1)) :: rat) \<le> of_nat (nat q)" "(of_nat (nat q) :: rat) < of_nat (2 ^ lq)"
    using bq by (simp_all only: of_nat_le_iff of_nat_less_iff)
  then have rq: "(2::rat) ^ (lq - 1) \<le> of_int q" "(of_int q :: rat) < 2 ^ lq"
    unfolding nq by simp_all
  have qpos: "(0::rat) < of_int q" and ppos: "(0::rat) < of_int p" using p q by simp_all
  have up: "a < 2 powi (d + 1)"
  proof -
    have "a < 2 ^ lp / 2 ^ (lq - 1)"
      unfolding a by (rule frac_less) (use rp rq ppos in simp_all)
    also have "\<dots> = 2 powi (int lp - int (lq - 1))"
      by (simp add: power_int_diff)
    also have "int lp - int (lq - 1) = d + 1"
      using lq by (simp add: d_def)
    finally show ?thesis .
  qed
  have lo: "2 powi (d - 1) \<le> a"
  proof -
    have "d - 1 = int (lp - 1) - int lq"
      using lp by (simp add: d_def)
    then have "2 powi (d - 1) = (2::rat) ^ (lp - 1) / 2 ^ lq"
      by (simp add: power_int_diff)
    also have "\<dots> \<le> a"
      unfolding a by (rule frac_le) (use rp rq qpos ppos in simp_all)
    finally show ?thesis .
  qed
  have fl: "floor_log2 a = (if 2 powi d \<le> a then d else d - 1)"
    by (simp add: floor_log2_def pq d_def lp_def lq_def Let_def)
  show "2 powi (floor_log2 a) \<le> a" using lo by (simp add: fl)
  show "a < 2 powi (floor_log2 a + 1)" using up by (auto simp: fl not_le)
qed

lemma floor_log2_mono:
  assumes "0 < x" "x \<le> y"
  shows "floor_log2 x \<le> floor_log2 y"
proof (rule ccontr)
  assume "\<not> floor_log2 x \<le> floor_log2 y"
  then have "floor_log2 y + 1 \<le> floor_log2 x" by simp
  then have "(2::rat) powi (floor_log2 y + 1) \<le> 2 powi floor_log2 x"
    by (intro power_int_increasing) simp_all
  also have "\<dots> \<le> x" using assms(1) by (rule floor_log2_bounds)
  also have "x \<le> y" by fact
  also have "y < 2 powi (floor_log2 y + 1)" using assms by (intro floor_log2_bounds) simp
  finally show False by simp
qed

lemma round_half_even_bounds:
  "of_int (round_half_even x) \<le> x + 1 / 2" "x - 1 / 2 \<le> of_int (round_half_even x)"
  "\<lfloor>x\<rfloor> \<le> round_half_even x" "round_half_even x \<le> \<lfloor>x\<rfloor> + 1"
  by (auto simp: round_half_even_def Let_def) linarith+

lemma round_half_even_of_int [simp]: "round_half_even (of_int n) = n"
  by (simp add: round_half_even_def)

lemma round_half_even_mono:
  assumes "x \<le> y"
  shows "round_half_even x \<le> round_half_even y"
proof (cases "\<lfloor>x\<rfloor> = \<lfloor>y\<rfloor>")
  case True
  then show ?thesis using assms
    by (auto simp: round_half_even_def Let_def)
next
  case False
  with assms have "\<lfloor>x\<rfloor> + 1 \<le> \<lfloor>y\<rfloor>"
    using floor_mono [of x y] by linarith
  then show ?thesis
    using round_half_even_bounds(4) [of x] round_half_even_bounds(3) [of y] by linarith
qed

lemma round64_pos_mono:
  assumes "0 < x" "x \<le> y"
  shows "f64_ge (round64_pos y) (round64_pos x)"
proof -
  define ex where "ex = max (floor_log2 x) (- 1022)"
  define ey where "ey = max (floor_log2 y) (- 1022)"
  define ux where "ux = (2::rat) powi (ex - 52)"
  define uy where "uy = (2::rat) powi (ey - 52)"
  define nx where "nx = round_half_even (x / ux)"
  define ny where "ny = round_half_even (y / uy)"
  have y: "0 < y" using assms by simp
  have ux: "0 < ux" and uy: "0 < uy" by (simp_all add: ux_def uy_def)
  have exy: "ex \<le> ey"
    using floor_log2_mono [OF assms] by (simp add: ex_def ey_def)
  have top: "z < 2 powi (max (floor_log2 z) (- 1022) + 1)" if "0 < z" for z :: rat
  proof -
    have "z < 2 powi (floor_log2 z + 1)" using that by (rule floor_log2_bounds)
    also have "\<dots> \<le> 2 powi (max (floor_log2 z) (- 1022) + 1)"
      by (intro power_int_increasing) simp_all
    finally show ?thesis .
  qed
  have scale: "(2::rat) powi (e + 1) = 2 ^ 53 * 2 powi (e - 52)" for e :: int
  proof -
    have "e + 1 = 53 + (e - 52)" by simp
    then have "(2::rat) powi (e + 1) = 2 powi (53 + (e - 52))" by (rule arg_cong)
    also have "\<dots> = 2 powi 53 * 2 powi (e - 52)" by (subst power_int_add) simp_all
    finally show ?thesis by simp
  qed
  have scale': "(2::rat) powi e = 2 ^ 52 * 2 powi (e - 52)" for e :: int
  proof -
    have "e = 52 + (e - 52)" by simp
    then have "(2::rat) powi e = 2 powi (52 + (e - 52))" by (rule arg_cong)
    also have "\<dots> = 2 powi 52 * 2 powi (e - 52)" by (subst power_int_add) simp_all
    finally show ?thesis by simp
  qed
  have nx_le: "nx \<le> 2 ^ 53"
  proof -
    have "x < 2 ^ 53 * ux" using top [OF assms(1)] by (simp add: scale ex_def ux_def)
    then have "x / ux \<le> of_int (2 ^ 53)" using ux by (simp add: pos_divide_le_eq)
    then have "nx \<le> round_half_even (of_int (2 ^ 53))"
      unfolding nx_def by (rule round_half_even_mono)
    then show ?thesis by (simp only: round_half_even_of_int)
  qed
  have ny_le: "ny \<le> 2 ^ 53"
  proof -
    have "y < 2 ^ 53 * uy" using top [OF y] by (simp add: scale ey_def uy_def)
    then have "y / uy \<le> of_int (2 ^ 53)" using uy by (simp add: pos_divide_le_eq)
    then have "ny \<le> round_half_even (of_int (2 ^ 53))"
      unfolding ny_def by (rule round_half_even_mono)
    then show ?thesis by (simp only: round_half_even_of_int)
  qed
  have vals: "of_int nx * ux \<le> of_int ny * uy"
  proof (cases "ex = ey")
    case True
    then have u: "ux = uy" by (simp add: ux_def uy_def)
    have "x / ux \<le> y / uy" using assms(2) ux by (simp add: u divide_right_mono)
    then have "nx \<le> ny" unfolding nx_def ny_def by (rule round_half_even_mono)
    then show ?thesis using uy by (simp add: u)
  next
    case False
    with exy have lt: "ex + 1 \<le> ey" by simp
    then have "ey = floor_log2 y" by (auto simp: ex_def ey_def max_def split: if_splits)
    then have "2 powi ey \<le> y" using y by (simp add: floor_log2_bounds)
    then have "2 ^ 52 * uy \<le> y" by (subst (asm) scale') (simp add: uy_def)
    then have "of_int (2 ^ 52) \<le> y / uy" using uy by (simp add: pos_le_divide_eq)
    then have "round_half_even (of_int (2 ^ 52)) \<le> ny"
      unfolding ny_def by (rule round_half_even_mono)
    then have ny_ge: "2 ^ 52 \<le> ny" by (simp only: round_half_even_of_int)
    have "(of_int nx :: rat) \<le> of_int (2 ^ 53)"
      using nx_le by (simp only: of_int_le_iff)
    then have "of_int nx * ux \<le> of_int (2 ^ 53) * ux"
      using ux by (intro mult_right_mono) simp_all
    then have "of_int nx * ux \<le> 2 ^ 53 * ux" by simp
    also have "\<dots> = 2 powi (ex + 1)" by (simp add: scale ux_def)
    also have "\<dots> \<le> 2 powi ey" using lt by (intro power_int_increasing) simp_all
    also have "\<dots> = 2 ^ 52 * uy" by (subst scale') (simp add: uy_def)
    also have "\<dots> \<le> of_int ny * uy"
    proof -
      have "(of_int (2 ^ 52) :: rat) \<le> of_int ny"
        using ny_ge by (simp only: of_int_le_iff)
      then have "of_int (2 ^ 52) * uy \<le> of_int ny * uy"
        using uy by (intro mult_right_mono) simp_all
      then show ?thesis by simp
    qed
    finally show ?thesis .
  qed
  have ov: "1024 \<le> ey \<or> (ey = 1023 \<and> ny = 2 ^ 53)"
    if "1024 \<le> ex \<or> (ex = 1023 \<and> nx = 2 ^ 53)"
  proof (cases "1024 \<le> ey")
    case True
    then show ?thesis by simp
  next
    case False
    with that exy have e: "ex = 1023" "ey = 1023" and n: "nx = 2 ^ 53" by auto
    then have u: "ux = uy" by (simp add: ux_def uy_def)
    have "x / ux \<le> y / uy" using assms(2) ux by (simp add: u divide_right_mono)
    then have "nx \<le> ny" unfolding nx_def ny_def by (rule round_half_even_mono)
    with n ny_le e show ?thesis by simp
  qed
  have rx: "round64_pos x =
      (if 1024 \<le> ex \<or> (ex = 1023 \<and> nx = 2 ^ 53) then PosInf else Finite (of_int nx * ux))"
    by (simp only: round64_pos_def Let_def ex_def ux_def nx_def)
  have ry: "round64_pos y =
      (if 1024 \<le> ey \<or> (ey = 1023 \<and> ny = 2 ^ 53) then PosInf else Finite (of_int ny * uy))"
    by (simp only: round64_pos_def Let_def ey_def uy_def ny_def)
  show ?thesis
    using ov vals unfolding rx ry by auto
qed

lemma round_half_even_nonneg: "0 \<le> x \<Longrightarrow> 0 \<le> round_half_even x"
  using round_half_even_mono [of 0 x] round_half_even_of_int [of 0] by simp

lemma round64_pos_nonneg:
  assumes "0 < a"
  shows "round64_pos a = PosInf \<or> (\<exists>v\<ge>0. round64_pos a = Finite v)"
proof -
  have "0 \<le> round_half_even (a / 2 powi (max (floor_log2 a) (- 1022) - 52))"
    using assms by (intro round_half_even_nonneg) simp
  then show ?thesis
    by (simp add: round64_pos_def Let_def)
qed

text \<open>Rounding keeps the order between a number and a number that is not negative.\<close>

lemma round64_mono_nonneg:
  assumes "0 \<le> x" "y \<le> x"
  shows "f64_ge (round64 x) (round64 y)"
proof -
  have rx: "round64 x = PosInf \<or> (\<exists>v\<ge>0. round64 x = Finite v)"
    using assms(1) round64_pos_nonneg [of x] by (cases "x = 0") (auto simp: round64_def)
  consider "0 < y" | "y = 0" | "y < 0" by linarith
  then show ?thesis
  proof cases
    case 1
    with assms have "0 < x" by simp
    with 1 assms show ?thesis
      using round64_pos_mono [of y x] by (simp add: round64_def)
  next
    case 2
    with rx show ?thesis by (auto simp: round64_def)
  next
    case 3
    then have "round64 y = f64_neg (round64_pos (- y))" by (simp add: round64_def)
    moreover have "round64_pos (- y) = PosInf \<or> (\<exists>v\<ge>0. round64_pos (- y) = Finite v)"
      using 3 by (intro round64_pos_nonneg) simp
    ultimately show ?thesis using rx by auto
  qed
qed

lemma ReadyToTrip_iff:
  "ReadyToTrip config counts \<longleftrightarrow>
     MinRequestsBeforeTrip config \<le> Requests counts
     \<and> f64_ge (f64_div (float64_of_uint32 (TotalFailures counts))
                 (float64_of_uint32 (Requests counts)))
         (f64_div (FailureThresholdPercent config) (Finite 100))"
  by (simp add: ReadyToTrip_def Let_def)

lemma ReadyToTrip_exact:
  assumes "Requests counts \<noteq> 0" "FailureThresholdPercent config = Finite p"
    and "MinRequestsBeforeTrip config \<le> Requests counts"
    and "p / 100 \<le> of_nat (unat (TotalFailures counts)) / of_nat (unat (Requests counts))"
  shows "ReadyToTrip config counts"
proof -
  have r: "(of_nat (unat (Requests counts)) :: rat) \<noteq> 0"
    using assms(1) by (simp add: unsigned_eq_0_iff)
  have "f64_ge (round64 (of_nat (unat (TotalFailures counts)) / of_nat (unat (Requests counts))))
          (round64 (p / 100))"
    using assms(4) by (intro round64_mono_nonneg divide_nonneg_nonneg of_nat_0_le_iff)
  then show ?thesis
    using assms(2,3) r by (simp add: ReadyToTrip_iff float64_of_uint32_def)
qed

lemma ratio_below_threshold:
  "\<not> f64_ge (f64_div (Finite 0) (Finite 5)) (f64_div (Finite 60) (Finite 100))"
  "\<not> f64_ge (f64_div (Finite 1) (Finite 5)) (f64_div (Finite 60) (Finite 100))"
  "\<not> f64_ge (f64_div (Finite 2) (Finite 5)) (f64_div (Finite 60) (Finite 100))"
  by code_simp+

lemma three_of_five:
  assumes "3 \<le> f"
  shows "(60::rat) / 100 \<le> of_nat f / of_nat (5::nat)"
proof -
  have "(of_nat 3 :: rat) \<le> of_nat f"
    using assms by (rule of_nat_mono)
  then show ?thesis by simp
qed

lemma ReadyToTrip_five_calls:
  assumes "MinRequestsBeforeTrip config = 3" "FailureThresholdPercent config = Finite 60"
    and "Requests counts = 5"
  shows "ReadyToTrip config counts \<longleftrightarrow> 3 \<le> TotalFailures counts"
proof (cases "3 \<le> TotalFailures counts")
  case True
  then have "3 \<le> unat (TotalFailures counts)" by (simp add: word_le_nat_alt)
  moreover have "unat (Requests counts) = 5"
    unfolding assms(3) by simp
  ultimately have "(60::rat) / 100 \<le> of_nat (unat (TotalFailures counts)) / of_nat (unat (Requests counts))"
    using three_of_five [of "unat (TotalFailures counts)"] by (simp only:)
  with assms have "ReadyToTrip config counts"
    by (intro ReadyToTrip_exact [where p = 60]) simp_all
  with True show ?thesis by simp
next
  case False
  then have "unat (TotalFailures counts) < 3" by (simp add: word_le_nat_alt)
  then consider "unat (TotalFailures counts) = 0" | "unat (TotalFailures counts) = 1"
    | "unat (TotalFailures counts) = 2" by linarith
  then have "\<not> ReadyToTrip config counts"
    using ratio_below_threshold assms
    by cases (simp_all add: ReadyToTrip_iff float64_of_uint32_def del: f64_div.simps)
  with False show ?thesis by simp
qed

text \<open>
  \<^bold>\<open>C4.\<close> \<^verbatim>\<open>ReadyToTrip\<close> is true exactly when the breaker has seen at least
  \<^verbatim>\<open>MinRequestsBeforeTrip\<close> requests and the failure ratio, the binary64 quotient of failures
  by requests, is at least the threshold fraction, the binary64 quotient of
  \<^verbatim>\<open>FailureThresholdPercent\<close> by 100. Both conditions are needed: with too few requests it is
  false whatever the ratio. Whenever there are enough requests and the exact ratio of failures
  to requests reaches the exact fraction, it is true, since rounding keeps the order. With a
  minimum of 3 requests and a threshold of 60 percent, 5 calls trip exactly when 3 or more of
  them failed: 3 of 5, the boundary, trips and 2 of 5 does not.
\<close>

theorem ReadyToTrip_policy:
  "(ReadyToTrip config counts \<longleftrightarrow>
      MinRequestsBeforeTrip config \<le> Requests counts
      \<and> f64_ge (f64_div (float64_of_uint32 (TotalFailures counts))
                  (float64_of_uint32 (Requests counts)))
          (f64_div (FailureThresholdPercent config) (Finite 100)))
   \<and> (ReadyToTrip config counts \<longrightarrow> MinRequestsBeforeTrip config \<le> Requests counts)
   \<and> (Requests counts \<noteq> 0 \<and> FailureThresholdPercent config = Finite p
        \<and> MinRequestsBeforeTrip config \<le> Requests counts
        \<and> p / 100 \<le> of_nat (unat (TotalFailures counts)) / of_nat (unat (Requests counts))
       \<longrightarrow> ReadyToTrip config counts)
   \<and> (MinRequestsBeforeTrip config = 3 \<and> FailureThresholdPercent config = Finite 60
        \<and> Requests counts = 5
       \<longrightarrow> (ReadyToTrip config counts \<longleftrightarrow> 3 \<le> TotalFailures counts))"
  using ReadyToTrip_iff [of config counts] ReadyToTrip_exact [of counts config p]
    ReadyToTrip_five_calls [of config counts]
  by blast

theorem ReadyToTrip_policy_witness:
  "ReadyToTrip default_config (five_calls 3)
   \<and> ReadyToTrip default_config (five_calls 5)
   \<and> \<not> ReadyToTrip default_config (five_calls 2)
   \<and> \<not> ReadyToTrip default_config two_calls_failed"
proof -
  have "ReadyToTrip default_config (five_calls 3)"
    using ReadyToTrip_policy [of default_config "five_calls 3" 60, THEN conjunct2, THEN conjunct2, THEN conjunct2]
    by (simp add: default_config_def five_calls_def)
  moreover have "ReadyToTrip default_config (five_calls 5)"
    using ReadyToTrip_policy [of default_config "five_calls 5" 60, THEN conjunct2, THEN conjunct2, THEN conjunct2]
    by (simp add: default_config_def five_calls_def)
  moreover have "\<not> ReadyToTrip default_config (five_calls 2)"
    using ReadyToTrip_policy [of default_config "five_calls 2" 60, THEN conjunct2, THEN conjunct2, THEN conjunct2]
    by (simp add: default_config_def five_calls_def)
  moreover have "\<not> ReadyToTrip default_config two_calls_failed"
    using ReadyToTrip_policy [of default_config two_calls_failed 60, THEN conjunct2, THEN conjunct1]
    by (simp add: default_config_def two_calls_failed_def)
  ultimately show ?thesis by simp
qed
section \<open>The registry of circuit breakers\<close>

lemma registry_ok_New: "registry_ok (NewCircuitBreakerRegistry config)"
  by (simp add: registry_ok_def NewCircuitBreakerRegistry_def)

lemma keeps_refl: "keeps r r"
  by (simp add: keeps_def)

lemma call_ok_keeps:
  assumes "call_ok host p r" "keeps r r'"
  shows "call_ok host p r'"
  using assms by (cases p) (auto simp: keeps_def Name_at_def)

lemma NewCircuitBreaker_ok:
  assumes "registry_ok r" "NewCircuitBreaker st r = (cb, r')"
  shows "registry_ok r'" and "keeps r r'" and "cb < next_addr r'"
    and "Name_at r' cb = Some (Name st)"
proof -
  have r': "r' = r\<lparr>heap := (heap r)(next_addr r \<mapsto>
             \<lparr>cb_settings = st, cb_state = StateClosed,
              cb_counts = \<lparr>Requests = 0, TotalSuccesses = 0, TotalFailures = 0,
                           ConsecutiveSuccesses = 0, ConsecutiveFailures = 0\<rparr>\<rparr>),
        next_addr := Suc (next_addr r)\<rparr>" and cb: "cb = next_addr r"
    using assms(2) by (auto simp: NewCircuitBreaker_def)
  show "registry_ok r'"
    using assms(1) unfolding r' registry_ok_def Name_at_def by (auto intro: less_SucI)
  show "keeps r r'"
    unfolding r' keeps_def by simp
  show "cb < next_addr r'"
    unfolding r' cb by simp
  show "Name_at r' cb = Some (Name st)"
    unfolding r' cb Name_at_def by simp
qed

lemma LoadOrStore_ok:
  assumes "registry_ok r" "cb < next_addr r" "Name_at r cb = Some host"
    and "LoadOrStore host cb r = ((actual, loaded), r')"
  shows "registry_ok r'" and "keeps r r'" and "breakers r' host = Some actual"
proof -
  show "registry_ok r'"
    using assms unfolding registry_ok_def Name_at_def LoadOrStore_def
    by (auto split: option.splits if_splits)
  show "keeps r r'"
    using assms(4) unfolding keeps_def LoadOrStore_def
    by (auto split: option.splits)
  show "breakers r' host = Some actual"
    using assms(4) unfolding LoadOrStore_def
    by (auto split: option.splits)
qed

lemma step_call_ok:
  assumes "registry_ok r" "call_ok host p r" "step_call host p r = (p', r')"
  shows "registry_ok r' \<and> keeps r r' \<and> call_ok host p' r'"
proof (cases p)
  case AtLoad
  with assms show ?thesis
    by (auto simp: Load_def keeps_refl split: option.splits)
next
  case AtNew
  with assms(3) obtain cb where new: "NewCircuitBreaker ((settings r)\<lparr>Name := host\<rparr>) r = (cb, r')"
    and p': "p' = AtStore cb"
    by (auto split: prod.splits)
  from NewCircuitBreaker_ok [OF assms(1) new] show ?thesis
    by (simp add: p')
next
  case (AtStore cb)
  with assms(3) obtain actual loaded where st: "LoadOrStore host cb r = ((actual, loaded), r')"
    and p': "p' = Returned actual"
    by (auto split: prod.splits)
  from assms(2) AtStore have "cb < next_addr r" "Name_at r cb = Some host"
    by simp_all
  from LoadOrStore_ok [OF assms(1) this st] show ?thesis
    by (simp add: p')
next
  case (Returned a)
  with assms show ?thesis
    by (auto simp: keeps_refl)
qed

lemma calls_ok_step:
  assumes "calls_ok hosts c"
  shows "calls_ok hosts (step hosts i c)"
proof (cases c)
  case (Pair ps r)
  with assms have len: "length ps = length hosts" and ok: "registry_ok r"
    and each: "\<And>j. j < length ps \<Longrightarrow> call_ok (hosts ! j) (ps ! j) r"
    by (simp_all add: calls_ok_def)
  show ?thesis
  proof (cases "i < length ps \<and> i < length hosts")
    case False
    with assms Pair show ?thesis by (auto simp: step_def)
  next
    case True
    obtain p' r' where sc: "step_call (hosts ! i) (ps ! i) r = (p', r')"
      by (cases "step_call (hosts ! i) (ps ! i) r")
    from step_call_ok [OF ok each sc] True
    have ok': "registry_ok r'" and k: "keeps r r'" and mine: "call_ok (hosts ! i) p' r'"
      by simp_all
    have "call_ok (hosts ! j) (ps[i := p'] ! j) r'" if "j < length ps" for j
    proof (cases "j = i")
      case True
      with that mine show ?thesis by simp
    next
      case False
      with that call_ok_keeps [OF each [OF that] k] show ?thesis by simp
    qed
    with len ok' True Pair sc show ?thesis
      by (simp add: step_def calls_ok_def)
  qed
qed

lemma calls_ok_run: "calls_ok hosts (run hosts schedule (NewCircuitBreakerRegistry config))"
proof -
  have "calls_ok hosts (foldl (\<lambda>c i. step hosts i c) c schedule)" if "calls_ok hosts c" for c
    using that by (induction schedule arbitrary: c) (simp_all add: calls_ok_step)
  moreover have "calls_ok hosts (replicate (length hosts) AtLoad, NewCircuitBreakerRegistry config)"
    by (simp add: calls_ok_def registry_ok_New)
  ultimately show ?thesis by (simp add: run_def)
qed

text \<open>Two calls that returned have the same breaker exactly when they have the same host.\<close>

lemma returned_same_iff:
  assumes "calls_ok hosts (ps, r)" "i < length hosts" "j < length hosts"
    and "ps ! i = Returned a" "ps ! j = Returned b"
  shows "(a = b \<longleftrightarrow> hosts ! i = hosts ! j)"
    and "Name_at r a = Some (hosts ! i)" and "Name_at r b = Some (hosts ! j)"
    and "breakers r (hosts ! i) = Some a"
proof -
  from assms(1) have len: "length ps = length hosts" and ok: "registry_ok r"
    and each: "\<And>k. k < length ps \<Longrightarrow> call_ok (hosts ! k) (ps ! k) r"
    by (simp_all add: calls_ok_def)
  from each [of i] assms(2,4) len have a: "breakers r (hosts ! i) = Some a" by simp
  from each [of j] assms(3,5) len have b: "breakers r (hosts ! j) = Some b" by simp
  from ok a show na: "Name_at r a = Some (hosts ! i)" by (simp add: registry_ok_def)
  from ok b show nb: "Name_at r b = Some (hosts ! j)" by (simp add: registry_ok_def)
  from a b na nb show "(a = b \<longleftrightarrow> hosts ! i = hosts ! j)" by auto
  from a show "breakers r (hosts ! i) = Some a" .
qed

text \<open>A call returns with its third step at the latest.\<close>

lemma steps_done_step_call:
  "min 3 (Suc (steps_done p)) \<le> steps_done (fst (step_call host p r))"
  by (cases p) (auto split: option.splits prod.splits)

lemma length_step: "length (fst (step hosts i c)) = length (fst c)"
  by (cases c) (auto simp: step_def split: prod.splits)

lemma steps_done_step:
  assumes "length (fst c) = length hosts" "j < length hosts"
  shows "min 3 (steps_done (fst c ! j) + (if i = j then 1 else 0))
           \<le> steps_done (fst (step hosts i c) ! j)"
proof (cases c)
  case (Pair ps r)
  show ?thesis
  proof (cases "i = j")
    case True
    with assms Pair steps_done_step_call [of "ps ! j" "hosts ! j" r] show ?thesis
      by (auto simp: step_def split: prod.splits)
  next
    case False
    with assms Pair show ?thesis
      by (auto simp: step_def split: prod.splits)
  qed
qed

lemma steps_done_run:
  assumes "j < length hosts"
  shows "length (fst (run hosts schedule r)) = length hosts
         \<and> min 3 (count_list schedule j) \<le> steps_done (fst (run hosts schedule r) ! j)"
proof (induction schedule rule: rev_induct)
  case Nil
  with assms show ?case by (simp add: run_def)
next
  case (snoc i schedule)
  let ?c = "run hosts schedule r"
  have run: "run hosts (schedule @ [i]) r = step hosts i ?c"
    by (simp add: run_def)
  from snoc have len: "length (fst ?c) = length hosts"
    and sofar: "min 3 (count_list schedule j) \<le> steps_done (fst ?c ! j)"
    by simp_all
  from steps_done_step [OF len assms, of i] sofar
  have "min 3 (count_list (schedule @ [i]) j) \<le> steps_done (fst (step hosts i ?c) ! j)"
    by (auto simp: min_def split: if_splits)
  with len show ?case
    by (simp add: run length_step)
qed

lemma steps_done_Returned: "3 \<le> steps_done p \<Longrightarrow> \<exists>a. p = Returned a"
  by (cases p) simp_all

lemma run_returns:
  assumes "j < length hosts" "3 \<le> count_list schedule j"
  shows "\<exists>a. fst (run hosts schedule r) ! j = Returned a"
  using steps_done_run [OF assms(1), of schedule r] assms(2)
  by (intro steps_done_Returned) simp

text \<open>One call after another.\<close>

lemma GetOrCreate_ok:
  assumes "registry_ok r" "GetOrCreate host r = (a, r')"
  shows "registry_ok r'" and "keeps r r'" and "breakers r' host = Some a"
    and "Name_at r' a = Some host" and "GetOrCreate host r' = (a, r')"
proof -
  have *: "registry_ok r' \<and> keeps r r' \<and> breakers r' host = Some a"
  proof (cases "Load host r")
    case (Some cb)
    with assms show ?thesis by (simp add: GetOrCreate_def Load_def keeps_refl)
  next
    case None
    with assms(2) obtain cb r1 loaded
      where new: "NewCircuitBreaker ((settings r)\<lparr>Name := host\<rparr>) r = (cb, r1)"
        and st: "LoadOrStore host cb r1 = ((a, loaded), r')"
      by (auto simp: GetOrCreate_def create_and_store_def split: prod.splits)
    note n = NewCircuitBreaker_ok [OF assms(1) new]
    from n(4) have "Name_at r1 cb = Some host" by simp
    note l = LoadOrStore_ok [OF n(1) n(3) this st]
    from n(2) l(2) have "keeps r r'" by (auto simp: keeps_def)
    with l show ?thesis by simp
  qed
  then show "registry_ok r'" and "keeps r r'" and b: "breakers r' host = Some a"
    by simp_all
  from * show "Name_at r' a = Some host" by (simp add: registry_ok_def)
  from b show "GetOrCreate host r' = (a, r')" by (simp add: GetOrCreate_def Load_def)
qed


text \<open>
  \<^bold>\<open>C9.\<close> Calls of \<^verbatim>\<open>GetOrCreate\<close> on one registry, in any interleaving of their atomic steps:
  two calls that returned hold the same breaker exactly when they were made for the same
  host, so every call for a host gets the breaker stored first for it and calls for two
  hosts get two breakers, and each breaker is named after its host. Every call that is given
  its three steps returns. One call after another: a fresh registry is well formed, a call
  keeps it so and returns a breaker named after the host, a second call for that host
  returns the same breaker and leaves the registry as it is, and a call for another host
  returns another breaker, after which the first host still has its own.
\<close>

theorem GetOrCreate_idempotent:
  "(run hosts schedule (NewCircuitBreakerRegistry config) = (ps, r)
      \<and> i < length hosts \<and> j < length hosts \<and> ps ! i = Returned a \<and> ps ! j = Returned b
     \<longrightarrow> (a = b \<longleftrightarrow> hosts ! i = hosts ! j)
         \<and> Name_at r a = Some (hosts ! i) \<and> Name_at r b = Some (hosts ! j))
   \<and> (i < length hosts \<and> 3 \<le> count_list schedule i
     \<longrightarrow> (\<exists>c. fst (run hosts schedule (NewCircuitBreakerRegistry config)) ! i = Returned c))
   \<and> registry_ok (NewCircuitBreakerRegistry config)
   \<and> (registry_ok r0 \<and> GetOrCreate host r0 = (a1, r1)
     \<longrightarrow> registry_ok r1 \<and> Name_at r1 a1 = Some host \<and> GetOrCreate host r1 = (a1, r1)
         \<and> (host' \<noteq> host \<and> GetOrCreate host' r1 = (a2, r2)
           \<longrightarrow> a2 \<noteq> a1 \<and> Name_at r2 a1 = Some host \<and> Name_at r2 a2 = Some host'
               \<and> GetOrCreate host r2 = (a1, r2)))"
proof (intro conjI impI)
  assume h: "run hosts schedule (NewCircuitBreakerRegistry config) = (ps, r)
      \<and> i < length hosts \<and> j < length hosts \<and> ps ! i = Returned a \<and> ps ! j = Returned b"
  with calls_ok_run [of hosts schedule config] have ok: "calls_ok hosts (ps, r)"
    by simp
  from h have "i < length hosts" "j < length hosts" "ps ! i = Returned a" "ps ! j = Returned b"
    by simp_all
  note same = returned_same_iff [OF ok this]
  from same(1) show "a = b \<longleftrightarrow> hosts ! i = hosts ! j" .
  from same(2) show "Name_at r a = Some (hosts ! i)" .
  from same(3) show "Name_at r b = Some (hosts ! j)" .
next
  assume "i < length hosts \<and> 3 \<le> count_list schedule i"
  then show "\<exists>c. fst (run hosts schedule (NewCircuitBreakerRegistry config)) ! i = Returned c"
    by (simp add: run_returns)
next
  show "registry_ok (NewCircuitBreakerRegistry config)"
    by (rule registry_ok_New)
next
  assume h: "registry_ok r0 \<and> GetOrCreate host r0 = (a1, r1)"
  then have ok0: "registry_ok r0" and g1: "GetOrCreate host r0 = (a1, r1)"
    by simp_all
  note first = GetOrCreate_ok [OF ok0 g1]
  from first(1) show "registry_ok r1" .
  from first(4) show "Name_at r1 a1 = Some host" .
  from first(5) show "GetOrCreate host r1 = (a1, r1)" .
  assume h': "host' \<noteq> host \<and> GetOrCreate host' r1 = (a2, r2)"
  then have ne: "host' \<noteq> host" and g2: "GetOrCreate host' r1 = (a2, r2)"
    by simp_all
  note second = GetOrCreate_ok [OF first(1) g2]
  from first(3) second(2) have b: "breakers r2 host = Some a1"
    by (simp add: keeps_def)
  with second(1) show n1: "Name_at r2 a1 = Some host"
    by (simp add: registry_ok_def)
  from second(4) show n2: "Name_at r2 a2 = Some host'" .
  from n1 n2 ne show "a2 \<noteq> a1" by auto
  from b show "GetOrCreate host r2 = (a1, r2)"
    by (simp add: GetOrCreate_def Load_def)
qed

lemma racing_run:
  "fst (run racing_hosts racing_schedule (NewCircuitBreakerRegistry default_config))
     = [Returned 1, Returned 2, Returned 1]"
  by (simp add: run_def step_def racing_hosts_def racing_schedule_def
      NewCircuitBreakerRegistry_def NewCircuitBreaker_def Load_def LoadOrStore_def)

theorem GetOrCreate_idempotent_witness:
  "fst (run racing_hosts racing_schedule (NewCircuitBreakerRegistry default_config))
     = [Returned 1, Returned 2, Returned 1]
   \<and> Name_at (snd (run racing_hosts racing_schedule (NewCircuitBreakerRegistry default_config))) 1
       = Some ''api1.example.com''
   \<and> Name_at (snd (run racing_hosts racing_schedule (NewCircuitBreakerRegistry default_config))) 2
       = Some ''api2.example.com''
   \<and> GetOrCreate ''api1.example.com''
         (snd (GetOrCreate ''api1.example.com'' (NewCircuitBreakerRegistry default_config)))
       = GetOrCreate ''api1.example.com'' (NewCircuitBreakerRegistry default_config)
   \<and> fst (GetOrCreate ''api2.example.com''
         (snd (GetOrCreate ''api1.example.com'' (NewCircuitBreakerRegistry default_config))))
       \<noteq> fst (GetOrCreate ''api1.example.com'' (NewCircuitBreakerRegistry default_config))"
proof -
  let ?R = "NewCircuitBreakerRegistry default_config"
  let ?c = "run racing_hosts racing_schedule ?R"
  let ?g1 = "GetOrCreate ''api1.example.com'' ?R"
  let ?g2 = "GetOrCreate ''api2.example.com'' (snd ?g1)"
  note inst = GetOrCreate_idempotent [where hosts = racing_hosts and schedule = racing_schedule
      and config = default_config and ps = "fst ?c" and r = "snd ?c" and i = 0 and j = 1
      and a = 1 and b = 2 and ?r0.0 = ?R and host = "''api1.example.com''"
      and ?a1.0 = "fst ?g1" and ?r1.0 = "snd ?g1" and host' = "''api2.example.com''"
      and ?a2.0 = "fst ?g2" and ?r2.0 = "snd ?g2"]
  have len: "length racing_hosts = 3" and h0: "racing_hosts ! 0 = ''api1.example.com''"
    and h1: "racing_hosts ! 1 = ''api2.example.com''"
    by (simp_all add: racing_hosts_def)
  have "?c = (fst ?c, snd ?c)"
    by (rule prod.collapse [symmetric])
  moreover have "fst ?c ! 0 = Returned 1" "fst ?c ! 1 = Returned 2"
    by (simp_all add: racing_run)
  ultimately have returned: "?c = (fst ?c, snd ?c) \<and> 0 < length racing_hosts
      \<and> 1 < length racing_hosts \<and> fst ?c ! 0 = Returned 1 \<and> fst ?c ! 1 = Returned 2"
    unfolding len by (intro conjI) simp_all
  note both = inst [THEN conjunct1, THEN mp, OF returned]
  from both [unfolded h0 h1]
  have names: "Name_at (snd ?c) 1 = Some ''api1.example.com''
      \<and> Name_at (snd ?c) 2 = Some ''api2.example.com''"
    by simp
  from inst [THEN conjunct2, THEN conjunct2]
  have seq: "GetOrCreate ''api1.example.com'' (snd ?g1) = ?g1 \<and> fst ?g2 \<noteq> fst ?g1"
    by simp
  from racing_run names seq show ?thesis by simp
qed
end
